theory Spec2Isabelle
  imports Complex_Main "HOL-Library.Multiset"
begin

section \<open>Numbers and optional fields\<close>

text \<open>
  The program is JavaScript (\<^verbatim>\<open>src/App.jsx\<close>). Its numbers are modelled as \<^typ>\<open>real\<close>:
  finite values with exact arithmetic. A property of a feed object that is missing
  (\<^verbatim>\<open>undefined\<close> or \<^verbatim>\<open>null\<close>) is \<^term>\<open>None\<close>; a numeric one is \<^term>\<open>Some x\<close>.
  The yield, which divides by the strike, is a \<open>jsnum\<close>: it has the infinities and
  NaN that JavaScript produces on a division by zero. The other divisions of the
  analysis are by the days to expiry or by a delta above 0.01 in absolute value and are
  written as divisions of reals.
\<close>

text \<open>\<^verbatim>\<open>x || 0\<close> on a number or a missing value: 0 and missing are falsy.\<close>

definition orZero :: "real option \<Rightarrow> real" where
  "orZero v = (case v of None \<Rightarrow> 0 | Some x \<Rightarrow> if x = 0 then 0 else x)"

text \<open>\<^verbatim>\<open>x || false\<close> and \<^verbatim>\<open>x || ""\<close>.\<close>

definition orFalse :: "bool option \<Rightarrow> bool" where
  "orFalse v = (case v of None \<Rightarrow> False | Some b \<Rightarrow> b)"

definition orEmpty :: "string option \<Rightarrow> string" where
  "orEmpty v = (case v of None \<Rightarrow> [] | Some s \<Rightarrow> s)"

datatype jsnum = Fin real | PosInf | NegInf | NaN

text \<open>\<^verbatim>\<open>a / b\<close> where \<open>b\<close> may be zero (signed zeros are not distinguished).\<close>

definition js_div :: "real \<Rightarrow> real \<Rightarrow> jsnum" where
  "js_div a b =
     (if b \<noteq> 0 then Fin (a / b)
      else if 0 < a then PosInf
      else if a < 0 then NegInf
      else NaN)"

text \<open>\<^verbatim>\<open>x * y\<close> on such values.\<close>

fun js_mul :: "jsnum \<Rightarrow> jsnum \<Rightarrow> jsnum" where
  "js_mul NaN y = NaN"
| "js_mul x NaN = NaN"
| "js_mul (Fin a) (Fin b) = Fin (a * b)"
| "js_mul (Fin a) PosInf = (if a = 0 then NaN else if 0 < a then PosInf else NegInf)"
| "js_mul (Fin a) NegInf = (if a = 0 then NaN else if 0 < a then NegInf else PosInf)"
| "js_mul PosInf (Fin b) = (if b = 0 then NaN else if 0 < b then PosInf else NegInf)"
| "js_mul NegInf (Fin b) = (if b = 0 then NaN else if 0 < b then NegInf else PosInf)"
| "js_mul PosInf PosInf = PosInf"
| "js_mul PosInf NegInf = NegInf"
| "js_mul NegInf PosInf = NegInf"
| "js_mul NegInf NegInf = PosInf"

text \<open>
  \<^verbatim>\<open>xs.slice(s, e)\<close> with integer arguments: a negative index counts from the end, both
  indices are clipped to the array, and an empty range gives the empty array.
\<close>

definition js_slice :: "int \<Rightarrow> int \<Rightarrow> 'a list \<Rightarrow> 'a list" where
  "js_slice s e xs =
     (let n = int (length xs);
          k = (if s < 0 then max (n + s) 0 else min s n);
          f = (if e < 0 then max (n + e) 0 else min e n)
      in take (nat (f - k)) (drop (nat k) xs))"

section \<open>Option analysis\<close>

text \<open>
  A call contract as the feed reports it (\<^verbatim>\<open>c.strike\<close>, \<^verbatim>\<open>c.bid\<close>, ...). For the
  five Greeks, which the source tests with \<^verbatim>\<open>typeof c.delta === "number"\<close>, \<^term>\<open>None\<close>
  stands for every value that is not a number.
\<close>

record RawOptionContract =
  c_strike :: real
  c_bid :: "real option"
  c_ask :: "real option"
  c_lastPrice :: "real option"
  c_volume :: "real option"
  c_openInterest :: "real option"
  c_impliedVolatility :: "real option"
  c_delta :: "real option"
  c_gamma :: "real option"
  c_theta :: "real option"
  c_vega :: "real option"
  c_rho :: "real option"
  c_inTheMoney :: "bool option"
  c_contractSymbol :: "string option"

datatype moneyness_t = ATM | ITM | OTM

text \<open>
  The object returned for each selected contract by \<^verbatim>\<open>analyzeCallOptions\<close>. The field
  \<^verbatim>\<open>last\<close> is \<open>last_price\<close> here. A field that can hold \<^verbatim>\<open>null\<close> has an option type;
  \<open>impliedVol\<close> has one as well, so that "null" can be said of it, although the source
  always stores a number there.
\<close>

record AnalyzedOption =
  strike :: real
  mid :: real
  bid :: real
  ask :: real
  last_price :: real
  volume :: real
  openInterest :: real
  impliedVol :: "real option"
  intrinsic :: real
  extrinsic :: real
  extrinsicPerDTE :: real
  efficiencyScore :: "real option"
  fallbackScore :: real
  annualizedYield :: jsnum
  delta :: "real option"
  gamma :: "real option"
  theta :: "real option"
  vega :: "real option"
  rho :: "real option"
  dte :: int
  moneyness :: moneyness_t
  inTheMoney :: bool
  contractSymbol :: string

text \<open>
  \<^verbatim>\<open>Math.max(1, Math.ceil((expiryTs - Date.now() / 1000) / 86400))\<close>; the clock
  \<^verbatim>\<open>Date.now()\<close>, in integer milliseconds, is the parameter \<open>nowMs\<close>.
\<close>

definition daysUntilExpiry :: "int \<Rightarrow> real \<Rightarrow> int" where
  "daysUntilExpiry nowMs expiryTs =
     max 1 \<lceil>(expiryTs - real_of_int nowMs / 1000) / 86400\<rceil>"

text \<open>
  The \<^verbatim>\<open>forEach\<close> that finds the at-the-money index. The state is
  \<open>(atmIdx, minDist)\<close>; \<open>minDist = None\<close> is the initial \<^verbatim>\<open>Infinity\<close>, below which every
  distance lies.
\<close>

fun atmLoop :: "real \<Rightarrow> RawOptionContract list \<Rightarrow> nat \<Rightarrow> nat \<times> real option \<Rightarrow> nat \<times> real option" where
  "atmLoop spotPrice [] i st = st"
| "atmLoop spotPrice (c # cs) i (atmIdx, minDist) =
     (let dist = \<bar>c_strike c - spotPrice\<bar>
      in atmLoop spotPrice cs (Suc i)
           (if (case minDist of None \<Rightarrow> True | Some m \<Rightarrow> dist < m)
            then (i, Some dist) else (atmIdx, minDist)))"

definition findAtm :: "real \<Rightarrow> RawOptionContract list \<Rightarrow> nat" where
  "findAtm spotPrice sortedCalls = fst (atmLoop spotPrice sortedCalls 0 (0, None))"

text \<open>The strike increment read off the neighbourhood of the at-the-money index.\<close>

definition strikeIncrement :: "RawOptionContract list \<Rightarrow> nat \<Rightarrow> real" where
  "strikeIncrement sortedCalls atmIdx =
     (if length sortedCalls > 1 then
        (let nearby = js_slice (max 0 (int atmIdx - 1))
                               (min (int (length sortedCalls)) (int atmIdx + 2)) sortedCalls
         in if length nearby \<ge> 2 then c_strike (nearby ! 1) - c_strike (nearby ! 0) else 1)
      else 1)"

text \<open>The slice \<^verbatim>\<open>sorted.slice(startIdx, endIdx)\<close> around the at-the-money index.\<close>

definition selectWindow :: "RawOptionContract list \<Rightarrow> nat \<Rightarrow> int \<Rightarrow> RawOptionContract list" where
  "selectWindow sortedCalls atmIdx numStrikes =
     (let startIdx = max 0 (int atmIdx - numStrikes);
          endIdx = min (int (length sortedCalls)) (int atmIdx + numStrikes + 1)
      in js_slice startIdx endIdx sortedCalls)"

text \<open>The body of \<^verbatim>\<open>selected.map(c => ...)\<close>.\<close>

definition deriveOption :: "real \<Rightarrow> int \<Rightarrow> real \<Rightarrow> RawOptionContract \<Rightarrow> AnalyzedOption" where
  "deriveOption spotPrice dte_v increment c =
     (let strike_v = c_strike c;
          bid_v = orZero (c_bid c);
          ask_v = orZero (c_ask c);
          mid_v = (if bid_v > 0 \<and> ask_v > 0 then (bid_v + ask_v) / 2 else orZero (c_lastPrice c));
          last_v = orZero (c_lastPrice c);
          volume_v = orZero (c_volume c);
          openInterest_v = orZero (c_openInterest c);
          impliedVol_v = orZero (c_impliedVolatility c);
          intrinsic_v = max 0 (spotPrice - strike_v);
          extrinsic_v = max 0 (mid_v - intrinsic_v);
          delta_v = c_delta c;
          gamma_v = c_gamma c;
          theta_v = c_theta c;
          vega_v = c_vega c;
          rho_v = c_rho c;
          extrinsicPerDTE_v = extrinsic_v / real_of_int dte_v;
          absDelta = map_option abs delta_v;
          efficiencyScore_v =
            (case absDelta of
               Some a \<Rightarrow> if a > 1 / 100 then Some (extrinsicPerDTE_v / a) else None
             | None \<Rightarrow> None);
          fallbackScore_v = extrinsicPerDTE_v;
          annualizedYield_v =
            js_mul (js_mul (js_div extrinsic_v strike_v) (js_div 365 (real_of_int dte_v))) (Fin 100);
          isITM = strike_v < spotPrice;
          isATM = \<bar>strike_v - spotPrice\<bar> \<le> increment * (6 / 10);
          moneyness_v = (if isATM then ATM else if isITM then ITM else OTM)
      in \<lparr> strike = strike_v, mid = mid_v, bid = bid_v, ask = ask_v, last_price = last_v,
           volume = volume_v, openInterest = openInterest_v, impliedVol = Some impliedVol_v,
           intrinsic = intrinsic_v, extrinsic = extrinsic_v,
           extrinsicPerDTE = extrinsicPerDTE_v,
           efficiencyScore = efficiencyScore_v, fallbackScore = fallbackScore_v,
           annualizedYield = annualizedYield_v,
           delta = delta_v, gamma = gamma_v, theta = theta_v, vega = vega_v, rho = rho_v,
           dte = dte_v, moneyness = moneyness_v,
           inTheMoney = orFalse (c_inTheMoney c),
           contractSymbol = orEmpty (c_contractSymbol c) \<rparr>)"

text \<open>
  \<^verbatim>\<open>analyzeCallOptions(calls, spotPrice, expiryTs, numStrikes)\<close>. The sort
  \<^verbatim>\<open>[...calls].sort((a, b) => a.strike - b.strike)\<close> is stable and ascending by strike.
\<close>

definition analyzeCallOptions ::
    "int \<Rightarrow> RawOptionContract list \<Rightarrow> real \<Rightarrow> real \<Rightarrow> int \<Rightarrow> AnalyzedOption list" where
  "analyzeCallOptions nowMs calls spotPrice expiryTs numStrikes =
     (let dte_v = daysUntilExpiry nowMs expiryTs;
          sortedCalls = sort_key c_strike calls;
          atmIdx = findAtm spotPrice sortedCalls;
          increment = strikeIncrement sortedCalls atmIdx;
          selected = selectWindow sortedCalls atmIdx numStrikes
      in map (deriveOption spotPrice dte_v increment) selected)"

section \<open>Ranking\<close>

text \<open>The ranked object \<^verbatim>\<open>{ ...o, rank: i + 1 }\<close>.\<close>

record RankedOption = AnalyzedOption +
  rank :: nat

definition withRank :: "AnalyzedOption \<Rightarrow> nat \<Rightarrow> RankedOption" where
  "withRank opt r = AnalyzedOption.extend opt (RankedOption.fields r)"

text \<open>\<^verbatim>\<open>xs.map((o, i) => ({ ...o, rank: i + 1 }))\<close>\<close>

definition assignRanks :: "AnalyzedOption list \<Rightarrow> RankedOption list" where
  "assignRanks xs = map (\<lambda>(i, opt). withRank opt (i + 1)) (enumerate 0 xs)"

text \<open>
  \<^verbatim>\<open>xs.sort((a, b) => key(b) - key(a))\<close>: the array sort is stable, and with this
  comparator \<open>a\<close> goes before \<open>b\<close> when \<open>key b < key a\<close>; that is the stable
  ascending sort on the negated key.
\<close>

definition sortDescBy :: "('a \<Rightarrow> real) \<Rightarrow> 'a list \<Rightarrow> 'a list" where
  "sortDescBy key xs = sort_key (\<lambda>x. - key x) xs"

text \<open>
  The number that \<^verbatim>\<open>o.efficiencyScore\<close> stands for in the subtraction of the comparator
  (\<^verbatim>\<open>null\<close> converts to 0; the comparator only meets non-null scores).
\<close>

definition scoreNum :: "'a AnalyzedOption_scheme \<Rightarrow> real" where
  "scoreNum opt = (case efficiencyScore opt of None \<Rightarrow> 0 | Some s \<Rightarrow> s)"

definition isRankable :: "'a AnalyzedOption_scheme \<Rightarrow> bool" where
  "isRankable opt \<longleftrightarrow> extrinsic opt > 1 / 100"

text \<open>\<^verbatim>\<open>o.efficiencyScore != null && o.efficiencyScore > 0\<close>\<close>

definition isScored :: "'a AnalyzedOption_scheme \<Rightarrow> bool" where
  "isScored opt = (case efficiencyScore opt of None \<Rightarrow> False | Some s \<Rightarrow> s > 0)"

text \<open>\<^verbatim>\<open>o.efficiencyScore == null || o.efficiencyScore <= 0\<close>\<close>

definition isUnscored :: "'a AnalyzedOption_scheme \<Rightarrow> bool" where
  "isUnscored opt = (case efficiencyScore opt of None \<Rightarrow> True | Some s \<Rightarrow> s \<le> 0)"

definition rankByEfficiency :: "AnalyzedOption list \<Rightarrow> RankedOption list" where
  "rankByEfficiency options =
     (let hasGreeks = list_ex (\<lambda>opt. efficiencyScore opt \<noteq> None) options;
          rankable = filter isRankable options
      in if hasGreeks then
           (let withGreeks = filter isScored rankable;
                noGreeks = filter isUnscored rankable
            in assignRanks (sortDescBy scoreNum withGreeks @ sortDescBy fallbackScore noGreeks))
         else assignRanks (sortDescBy fallbackScore rankable))"

section \<open>Expiration matching\<close>

text \<open>
  \<^verbatim>\<open>findClosestExpiry(available, targetDateStr)\<close>. The conversion
  \<^verbatim>\<open>new Date(s).getTime()\<close> of a local date-time string to epoch milliseconds belongs to
  the runtime and its time zone; it is the parameter \<open>parseDate\<close>, with \<^term>\<open>None\<close> for a
  string that is no date (the source then compares with NaN, every comparison is false
  and the first element stays). On an empty array \<^verbatim>\<open>reduce\<close> returns its initial value
  \<^verbatim>\<open>available[0]\<close>, which is \<^verbatim>\<open>undefined\<close>: the result \<^term>\<open>None\<close>.
\<close>

definition closer :: "real \<Rightarrow> real \<Rightarrow> real \<Rightarrow> real" where
  "closer target ts best = (if \<bar>ts - target\<bar> < \<bar>best - target\<bar> then ts else best)"

definition findClosestExpiry :: "(string \<Rightarrow> int option) \<Rightarrow> real list \<Rightarrow> string \<Rightarrow> real option" where
  "findClosestExpiry parseDate available targetDateStr =
     (case available of
        [] \<Rightarrow> None
      | a # _ \<Rightarrow>
          (case parseDate (targetDateStr @ ''T16:00:00'') of
             None \<Rightarrow> Some a
           | Some ms \<Rightarrow> Some (fold (closer (real_of_int ms / 1000)) available a)))"

section \<open>Relay fetch\<close>

text \<open>
  What one \<^verbatim>\<open>fetch\<close> through a relay can do: reject (or have \<^verbatim>\<open>resp.text()\<close> reject) with
  an error whose \<^verbatim>\<open>message\<close> may be missing, answer with a non-success status, or
  answer with a body.
\<close>

datatype response = Threw "string option" | NotOk | Body string

text \<open>
  One pass through the \<^verbatim>\<open>try\<close> block. \<open>Inr d\<close> is \<^verbatim>\<open>return data\<close>;
  \<open>Inl None\<close> is a \<^verbatim>\<open>continue\<close>; \<open>Inl (Some e)\<close> is the \<^verbatim>\<open>catch\<close>, which stores
  the error in \<^verbatim>\<open>lastErr\<close>. The JSON parser is the parameter \<open>parseJson\<close>.
\<close>

definition attemptOnce :: "(string \<Rightarrow> 'j option) \<Rightarrow> response \<Rightarrow> string option option + 'j" where
  "attemptOnce parseJson resp =
     (case resp of
        Threw e \<Rightarrow> Inl (Some e)
      | NotOk \<Rightarrow> Inl None
      | Body text \<Rightarrow>
          if text = [] \<or> length text < 30 then Inl None
          else (case parseJson text of None \<Rightarrow> Inl None | Some d \<Rightarrow> Inr d))"

text \<open>
  The network is the parameter \<open>net\<close>: \<open>net i u\<close> is the response to the \<open>i\<close>-th
  request of the call (counted from 0), sent to the address \<open>u\<close>. The relay list
  \<^verbatim>\<open>proxyBuilders\<close> is a parameter too. Round \<open>attempt\<close> issues the requests numbered
  \<open>attempt * length proxyBuilders + p\<close>. The status callback and the pause between
  rounds do not change the result and are left out.
\<close>

fun proxyLoop ::
    "(string \<Rightarrow> 'j option) \<Rightarrow> (nat \<Rightarrow> string \<Rightarrow> response) \<Rightarrow> (string \<Rightarrow> string) list \<Rightarrow> string
      \<Rightarrow> nat \<Rightarrow> nat list \<Rightarrow> string option option \<Rightarrow> string option option + 'j" where
  "proxyLoop parseJson net proxyBuilders url attempt [] lastErr = Inl lastErr"
| "proxyLoop parseJson net proxyBuilders url attempt (p # ps) lastErr =
     (let proxyUrl = (proxyBuilders ! ((attempt + p) mod length proxyBuilders)) url
      in case attemptOnce parseJson (net (attempt * length proxyBuilders + p) proxyUrl) of
           Inr d \<Rightarrow> Inr d
         | Inl None \<Rightarrow> proxyLoop parseJson net proxyBuilders url attempt ps lastErr
         | Inl (Some e) \<Rightarrow> proxyLoop parseJson net proxyBuilders url attempt ps (Some e))"

fun attemptLoop ::
    "(string \<Rightarrow> 'j option) \<Rightarrow> (nat \<Rightarrow> string \<Rightarrow> response) \<Rightarrow> (string \<Rightarrow> string) list \<Rightarrow> string
      \<Rightarrow> nat list \<Rightarrow> string option option \<Rightarrow> string option option + 'j" where
  "attemptLoop parseJson net proxyBuilders url [] lastErr = Inl lastErr"
| "attemptLoop parseJson net proxyBuilders url (attempt # rest) lastErr =
     (case proxyLoop parseJson net proxyBuilders url attempt [0..<length proxyBuilders] lastErr of
        Inr d \<Rightarrow> Inr d
      | Inl lastErr' \<Rightarrow> attemptLoop parseJson net proxyBuilders url rest lastErr')"

text \<open>\<^verbatim>\<open>lastErr?.message || "All proxies failed"\<close>\<close>

definition errMessage :: "string option option \<Rightarrow> string" where
  "errMessage lastErr =
     (case lastErr of
        Some (Some m) \<Rightarrow> if m = [] then ''All proxies failed'' else m
      | _ \<Rightarrow> ''All proxies failed'')"

definition fetchWithProxies ::
    "(string \<Rightarrow> 'j option) \<Rightarrow> (nat \<Rightarrow> string \<Rightarrow> response) \<Rightarrow> (string \<Rightarrow> string) list \<Rightarrow> string
      \<Rightarrow> string \<Rightarrow> nat \<Rightarrow> string + 'j" where
  "fetchWithProxies parseJson net proxyBuilders url label maxAttempts =
     (case attemptLoop parseJson net proxyBuilders url [0..<maxAttempts] None of
        Inr d \<Rightarrow> Inr d
      | Inl lastErr \<Rightarrow> Inl (label @ '' failed: '' @ errMessage lastErr))"

section \<open>Spot price\<close>

text \<open>
  The part of the chart response that \<^verbatim>\<open>fetchSpotPrice\<close> reads, every property optional:
  \<^verbatim>\<open>result.meta\<close>, \<^verbatim>\<open>result.indicators?.adjclose?.[0]?.adjclose\<close> and
  \<^verbatim>\<open>result.indicators?.quote?.[0]?.close\<close>, the two series being arrays of numbers and
  nulls.
\<close>

record ChartMeta =
  regularMarketPrice :: "real option"
  shortName :: "string option"
  symbol :: "string option"

record ChartResult =
  meta :: "ChartMeta option"
  adjclose :: "real option list option"
  quoteClose :: "real option list option"

record SpotQuote =
  price :: real
  name :: string

text \<open>\<^verbatim>\<open>a || b\<close> on strings: a missing or empty string is falsy.\<close>

definition strOr :: "string option \<Rightarrow> string \<Rightarrow> string" where
  "strOr a b = (case a of None \<Rightarrow> b | Some s \<Rightarrow> if s = [] then b else s)"

text \<open>\<^verbatim>\<open>closes.filter(c => c != null)\<close>\<close>

definition validCloses :: "real option list \<Rightarrow> real list" where
  "validCloses closes = List.map_filter (\<lambda>c. c) closes"

text \<open>
  The end of \<^verbatim>\<open>fetchSpotPrice\<close>, from \<^verbatim>\<open>const closes = ...\<close> on. An array is truthy
  even when it is empty, so the \<^verbatim>\<open>quote\<close> series is read only when the
  \<^verbatim>\<open>adjclose\<close> series is missing.
\<close>

definition closesFallback :: "string \<Rightarrow> ChartResult \<Rightarrow> string + SpotQuote" where
  "closesFallback ticker result =
     (let closes = (case adjclose result of Some xs \<Rightarrow> Some xs | None \<Rightarrow> quoteClose result)
      in case closes of
           Some cs \<Rightarrow>
             (let valid = validCloses cs
              in if length valid > 0
                 then Inr \<lparr> price = valid ! (length valid - 1), name = ticker \<rparr>
                 else Inl (''Could not extract price for '' @ ticker))
         | None \<Rightarrow> Inl (''Could not extract price for '' @ ticker))"

text \<open>
  \<^verbatim>\<open>fetchSpotPrice\<close> from the line that reads \<^verbatim>\<open>result.meta\<close> on. \<^verbatim>\<open>if (price)\<close> holds
  for a number other than 0.
\<close>

definition spotFromResult :: "string \<Rightarrow> ChartResult \<Rightarrow> string + SpotQuote" where
  "spotFromResult ticker result =
     (case meta result of
        None \<Rightarrow> closesFallback ticker result
      | Some m \<Rightarrow>
          (case regularMarketPrice m of
             None \<Rightarrow> closesFallback ticker result
           | Some v \<Rightarrow>
               if v \<noteq> 0
               then Inr \<lparr> price = v, name = strOr (shortName m) (strOr (symbol m) ticker) \<rparr>
               else closesFallback ticker result))"

text \<open>
  \<^verbatim>\<open>fetchSpotPrice(ticker, onStatus)\<close>. The request address (built with
  \<^verbatim>\<open>encodeURIComponent\<close> and the clock) is the parameter \<open>url\<close>, and
  \<^verbatim>\<open>data?.chart?.result?.[0]\<close> is the parameter \<open>chartResult\<close>.
\<close>

definition fetchSpotPrice ::
    "(string \<Rightarrow> 'j option) \<Rightarrow> (nat \<Rightarrow> string \<Rightarrow> response) \<Rightarrow> (string \<Rightarrow> string) list
      \<Rightarrow> ('j \<Rightarrow> ChartResult option) \<Rightarrow> string \<Rightarrow> string \<Rightarrow> string + SpotQuote" where
  "fetchSpotPrice parseJson net proxyBuilders chartResult url ticker =
     (case fetchWithProxies parseJson net proxyBuilders url
             (''Fetching '' @ ticker @ '' spot price'') 3 of
        Inl e \<Rightarrow> Inl e
      | Inr data \<Rightarrow>
          (case chartResult data of
             None \<Rightarrow> Inl (''No data returned for '' @ ticker)
           | Some result \<Rightarrow> spotFromResult ticker result))"

section \<open>Auxiliary definitions for the proofs\<close>

text \<open>
  The invariant of the at-the-money loop after the prefix \<open>xs\<close>: nothing seen yet, or
  the state holds the first index of the least distance to the spot price.
\<close>

definition atmInv :: "real \<Rightarrow> RawOptionContract list \<Rightarrow> nat \<times> real option \<Rightarrow> bool" where
  "atmInv s xs st =
     (case snd st of
        None \<Rightarrow> xs = [] \<and> fst st = 0
      | Some d \<Rightarrow> fst st < length xs \<and> d = \<bar>c_strike (xs ! fst st) - s\<bar>
           \<and> (\<forall>j<length xs. d \<le> \<bar>c_strike (xs ! j) - s\<bar>)
           \<and> (\<forall>j<fst st. d < \<bar>c_strike (xs ! j) - s\<bar>))"

text \<open>
  The outcomes of one relay attempt in the words of the specification: a soft failure
  is a transport error, a non-success status, a body shorter than 30 characters or a
  body that does not parse; a success is a body of at least 30 characters that parses.
  \<open>responseAt\<close> is the response to the \<open>i\<close>-th request of a call, which goes to the
  relay with index \<open>(round + position) mod n\<close>.
\<close>

definition softFailure :: "(string \<Rightarrow> 'j option) \<Rightarrow> response \<Rightarrow> bool" where
  "softFailure parseJson resp =
     (case resp of
        Threw e \<Rightarrow> True
      | NotOk \<Rightarrow> True
      | Body text \<Rightarrow> length text < 30 \<or> parseJson text = None)"

definition succeedsWith :: "(string \<Rightarrow> 'j option) \<Rightarrow> response \<Rightarrow> 'j \<Rightarrow> bool" where
  "succeedsWith parseJson resp d =
     (case resp of
        Threw e \<Rightarrow> False
      | NotOk \<Rightarrow> False
      | Body text \<Rightarrow> 30 \<le> length text \<and> parseJson text = Some d)"

definition responseAt :: "(nat \<Rightarrow> string \<Rightarrow> response) \<Rightarrow> (string \<Rightarrow> string) list \<Rightarrow> string \<Rightarrow> nat \<Rightarrow> response" where
  "responseAt net proxyBuilders url i =
     (let n = length proxyBuilders
      in net i ((proxyBuilders ! ((i div n + i mod n) mod n)) url))"

text \<open>Contracts for the worked examples: a strike, a quote, and optionally a delta.\<close>

definition exampleCall :: "real \<Rightarrow> real option \<Rightarrow> real option \<Rightarrow> real option \<Rightarrow> real option \<Rightarrow> RawOptionContract" where
  "exampleCall k b a l d =
     \<lparr> c_strike = k, c_bid = b, c_ask = a, c_lastPrice = l, c_volume = None,
       c_openInterest = None, c_impliedVolatility = None, c_delta = d, c_gamma = None,
       c_theta = None, c_vega = None, c_rho = None, c_inTheMoney = None,
       c_contractSymbol = None \<rparr>"

text \<open>An analysed contract for the worked examples: strike, extrinsic value and the two scores.\<close>

definition exampleAnalyzed :: "real \<Rightarrow> real \<Rightarrow> real option \<Rightarrow> real \<Rightarrow> AnalyzedOption" where
  "exampleAnalyzed k ext eff fb =
     \<lparr> strike = k, mid = ext, bid = 0, ask = 0, last_price = ext, volume = 0,
       openInterest = 0, impliedVol = Some 0, intrinsic = 0, extrinsic = ext,
       extrinsicPerDTE = fb, efficiencyScore = eff, fallbackScore = fb,
       annualizedYield = NaN, delta = None, gamma = None, theta = None, vega = None,
       rho = None, dte = 1, moneyness = OTM, inTheMoney = False, contractSymbol = [] \<rparr>"

text \<open>A parser, a network, a relay list and a chart result for the worked examples.\<close>

definition exampleParse :: "string \<Rightarrow> nat option" where
  "exampleParse t = (if t = ''[150.25, 151.5, 149.75, 150.1, 152]'' then Some 7 else None)"

definition exampleNet :: "nat \<Rightarrow> string \<Rightarrow> response" where
  "exampleNet i u =
     (if i = 0 then NotOk
      else if i = 1 then Body ''{}''
      else if i = 2 then Threw (Some ''timeout'')
      else Body ''[150.25, 151.5, 149.75, 150.1, 152]'')"

definition exampleBuilders :: "(string \<Rightarrow> string) list" where
  "exampleBuilders = [\<lambda>u. ''https://relay.example/?'' @ u, \<lambda>u. u]"

definition exampleResult :: "real option \<Rightarrow> real option list \<Rightarrow> ChartResult" where
  "exampleResult p cs =
     \<lparr> meta = Some \<lparr> regularMarketPrice = p, shortName = Some ''Apple Inc.'', symbol = Some ''AAPL'' \<rparr>,
       adjclose = Some cs, quoteClose = None \<rparr>"

section \<open>Days to expiry\<close>

lemma daysUntilExpiry_pos: "1 \<le> daysUntilExpiry nowMs expiryTs"
  by (simp add: daysUntilExpiry_def)

lemma analyze_is_map:
  "analyzeCallOptions nowMs calls spotPrice expiryTs numStrikes =
     map (deriveOption spotPrice (daysUntilExpiry nowMs expiryTs)
            (strikeIncrement (sort_key c_strike calls) (findAtm spotPrice (sort_key c_strike calls))))
         (selectWindow (sort_key c_strike calls) (findAtm spotPrice (sort_key c_strike calls)) numStrikes)"
  by (simp add: analyzeCallOptions_def Let_def)

section \<open>The at-the-money index and the window\<close>

lemma atmInv_step:
  assumes "atmInv s pre (a, m)"
  shows "atmInv s (pre @ [c])
           (if (case m of None \<Rightarrow> True | Some m' \<Rightarrow> \<bar>c_strike c - s\<bar> < m')
            then (length pre, Some \<bar>c_strike c - s\<bar>) else (a, m))"
proof (cases m)
  case None
  with assms show ?thesis by (simp add: atmInv_def)
next
  case (Some d)
  with assms have "a < length pre \<and> d = \<bar>c_strike (pre ! a) - s\<bar>
      \<and> (\<forall>j<length pre. d \<le> \<bar>c_strike (pre ! j) - s\<bar>)
      \<and> (\<forall>j<a. d < \<bar>c_strike (pre ! j) - s\<bar>)"
    by (auto simp: atmInv_def)
  then have a: "a < length pre" and d: "d = \<bar>c_strike (pre ! a) - s\<bar>"
    and le: "\<forall>j<length pre. d \<le> \<bar>c_strike (pre ! j) - s\<bar>"
    and lt: "\<forall>j<a. d < \<bar>c_strike (pre ! j) - s\<bar>"
    by blast+
  show ?thesis
  proof (cases "\<bar>c_strike c - s\<bar> < d")
    case True
    have "\<forall>j<Suc (length pre). \<bar>c_strike c - s\<bar> \<le> \<bar>c_strike ((pre @ [c]) ! j) - s\<bar>"
      using le True by (auto simp: nth_append less_Suc_eq)
    moreover have "\<forall>j<length pre. \<bar>c_strike c - s\<bar> < \<bar>c_strike ((pre @ [c]) ! j) - s\<bar>"
      using le True by (auto simp: nth_append)
    ultimately show ?thesis using Some True by (simp add: atmInv_def)
  next
    case False
    have "\<forall>j<Suc (length pre). d \<le> \<bar>c_strike ((pre @ [c]) ! j) - s\<bar>"
      using le False by (auto simp: nth_append less_Suc_eq)
    moreover have "\<forall>j<a. d < \<bar>c_strike ((pre @ [c]) ! j) - s\<bar>"
      using lt a by (auto simp: nth_append)
    moreover have "d = \<bar>c_strike ((pre @ [c]) ! a) - s\<bar>"
      using a d by (simp add: nth_append)
    ultimately show ?thesis using Some False a by (simp add: atmInv_def)
  qed
qed

lemma atmLoop_inv:
  "atmInv s pre st \<Longrightarrow> atmInv s (pre @ cs) (atmLoop s cs (length pre) st)"
proof (induction cs arbitrary: pre st)
  case Nil
  then show ?case by simp
next
  case (Cons c cs)
  obtain a m where st: "st = (a, m)" by (cases st)
  from Cons.prems have "atmInv s (pre @ [c])
           (if (case m of None \<Rightarrow> True | Some m' \<Rightarrow> \<bar>c_strike c - s\<bar> < m')
            then (length pre, Some \<bar>c_strike c - s\<bar>) else (a, m))"
    unfolding st by (rule atmInv_step)
  from Cons.IH[OF this] show ?case
    by (simp add: st Let_def)
qed

lemma findAtm_inv: "atmInv s xs (atmLoop s xs 0 (0, None))"
  using atmLoop_inv[of s "[]" "(0, None)" xs] by (simp add: atmInv_def)

lemma findAtm_first_min:
  assumes "xs \<noteq> []"
  shows "findAtm s xs < length xs"
    and "\<forall>j<length xs. \<bar>c_strike (xs ! findAtm s xs) - s\<bar> \<le> \<bar>c_strike (xs ! j) - s\<bar>"
    and "\<forall>j<findAtm s xs. \<bar>c_strike (xs ! findAtm s xs) - s\<bar> < \<bar>c_strike (xs ! j) - s\<bar>"
  using findAtm_inv[of s xs] assms
  by (auto simp: atmInv_def findAtm_def split: option.splits)

lemma findAtm_Nil: "findAtm s [] = 0"
  by (simp add: findAtm_def)

lemma findAtm_le: "findAtm s xs \<le> length xs"
  using findAtm_first_min(1)[of xs s] by (cases "xs = []") (simp_all add: findAtm_Nil)

lemma set_js_slice: "set (js_slice s e xs) \<subseteq> set xs"
  by (auto simp: js_slice_def Let_def dest: in_set_takeD in_set_dropD)

lemma take_drop_nth:
  "a \<le> b \<Longrightarrow> b \<le> length xs \<Longrightarrow> take (b - a) (drop a xs) = map ((!) xs) [a..<b]"
  by (intro nth_equalityI) simp_all

lemma js_slice_inrange:
  assumes "0 \<le> s" "s \<le> e" "e \<le> int (length xs)"
  shows "js_slice s e xs = map ((!) xs) [nat s..<nat e]"
proof -
  have "js_slice s e xs = take (nat e - nat s) (drop (nat s) xs)"
    using assms by (simp add: js_slice_def Let_def min_def nat_diff_distrib)
  also have "\<dots> = map ((!) xs) [nat s..<nat e]"
    using assms by (intro take_drop_nth) simp_all
  finally show ?thesis .
qed

lemma length_js_slice:
  assumes "0 \<le> s" "0 \<le> e"
  shows "length (js_slice s e xs) \<le> nat (e - s)"
  using assms by (auto simp: js_slice_def Let_def min_def)

lemma js_slice_Nil: "js_slice s e [] = []"
  by (simp add: js_slice_def Let_def)

lemma set_selectWindow: "set (selectWindow xs a n) \<subseteq> set xs"
  by (simp add: selectWindow_def Let_def set_js_slice)

lemma analyze_elem:
  assumes "opt \<in> set (analyzeCallOptions nowMs calls spotPrice expiryTs numStrikes)"
  shows "\<exists>c\<in>set calls. opt = deriveOption spotPrice (daysUntilExpiry nowMs expiryTs)
            (strikeIncrement (sort_key c_strike calls) (findAtm spotPrice (sort_key c_strike calls))) c"
proof -
  from assms obtain c where
    c: "c \<in> set (selectWindow (sort_key c_strike calls) (findAtm spotPrice (sort_key c_strike calls)) numStrikes)"
    and opt: "opt = deriveOption spotPrice (daysUntilExpiry nowMs expiryTs)
            (strikeIncrement (sort_key c_strike calls) (findAtm spotPrice (sort_key c_strike calls))) c"
    by (auto simp: analyze_is_map)
  from c have "c \<in> set (sort_key c_strike calls)"
    using set_selectWindow by blast
  then have "c \<in> set calls" by simp
  with opt show ?thesis by blast
qed

lemma orZero_eq: "orZero v = (case v of None \<Rightarrow> 0 | Some x \<Rightarrow> x)"
  by (simp add: orZero_def split: option.splits)

section \<open>Derived fields of a selected contract\<close>

text \<open>
  Claim C1. Every contract that \<^verbatim>\<open>analyzeCallOptions\<close> returns is derived from one of
  the input contracts, and its fields satisfy: the mid price is the mean of bid and ask
  when both are positive, otherwise the last price when the feed has one, otherwise 0;
  the intrinsic value is \<open>max 0 (spot - strike)\<close>; the extrinsic value is
  \<open>max 0 (mid - intrinsic)\<close>; both are non-negative, whatever the spot price and the
  strike.
\<close>

theorem derived_fields:
  assumes "opt \<in> set (analyzeCallOptions nowMs calls spotPrice expiryTs numStrikes)"
  shows "\<exists>c\<in>set calls.
           strike opt = c_strike c
         \<and> bid opt = (case c_bid c of None \<Rightarrow> 0 | Some b \<Rightarrow> b)
         \<and> ask opt = (case c_ask c of None \<Rightarrow> 0 | Some a \<Rightarrow> a)
         \<and> mid opt = (if 0 < bid opt \<and> 0 < ask opt then (bid opt + ask opt) / 2
                       else (case c_lastPrice c of None \<Rightarrow> 0 | Some l \<Rightarrow> l))
         \<and> intrinsic opt = max 0 (spotPrice - strike opt)
         \<and> extrinsic opt = max 0 (mid opt - intrinsic opt)
         \<and> 0 \<le> intrinsic opt \<and> 0 \<le> extrinsic opt"
proof -
  from analyze_elem[OF assms] obtain c where c: "c \<in> set calls"
    and opt: "opt = deriveOption spotPrice (daysUntilExpiry nowMs expiryTs)
            (strikeIncrement (sort_key c_strike calls) (findAtm spotPrice (sort_key c_strike calls))) c"
    by blast
  have "strike opt = c_strike c" "bid opt = (case c_bid c of None \<Rightarrow> 0 | Some b \<Rightarrow> b)"
    "ask opt = (case c_ask c of None \<Rightarrow> 0 | Some a \<Rightarrow> a)"
    "mid opt = (if 0 < bid opt \<and> 0 < ask opt then (bid opt + ask opt) / 2
                       else (case c_lastPrice c of None \<Rightarrow> 0 | Some l \<Rightarrow> l))"
    "intrinsic opt = max 0 (spotPrice - strike opt)"
    "extrinsic opt = max 0 (mid opt - intrinsic opt)"
    by (simp_all add: opt deriveOption_def Let_def orZero_eq)
  moreover from this have "0 \<le> intrinsic opt" "0 \<le> extrinsic opt" by simp_all
  ultimately show ?thesis using c by blast
qed

theorem derived_fields_witness:
  "hd (analyzeCallOptions 0 [exampleCall 160 (Some (24/10)) (Some (26/10)) None None] 150 86400 3)
     \<in> set (analyzeCallOptions 0 [exampleCall 160 (Some (24/10)) (Some (26/10)) None None] 150 86400 3)
   \<and> mid (hd (analyzeCallOptions 0 [exampleCall 160 (Some (24/10)) (Some (26/10)) None None] 150 86400 3)) = 5/2
   \<and> intrinsic (hd (analyzeCallOptions 0 [exampleCall 160 (Some (24/10)) (Some (26/10)) None None] 150 86400 3)) = 0
   \<and> extrinsic (hd (analyzeCallOptions 0 [exampleCall 160 (Some (24/10)) (Some (26/10)) None None] 150 86400 3)) = 5/2"
proof -
  let ?A = "analyzeCallOptions 0 [exampleCall 160 (Some (24/10)) (Some (26/10)) None None] 150 86400 3"
  have ne: "?A \<noteq> []"
    by (simp add: analyzeCallOptions_def Let_def findAtm_def selectWindow_def js_slice_def)
  then have h: "hd ?A \<in> set ?A" by simp
  from derived_fields[OF h] obtain c where
    c: "c \<in> set [exampleCall 160 (Some (24/10)) (Some (26/10)) None None]"
    and f: "strike (hd ?A) = c_strike c"
       "bid (hd ?A) = (case c_bid c of None \<Rightarrow> 0 | Some b \<Rightarrow> b)"
       "ask (hd ?A) = (case c_ask c of None \<Rightarrow> 0 | Some a \<Rightarrow> a)"
       "mid (hd ?A) = (if 0 < bid (hd ?A) \<and> 0 < ask (hd ?A) then (bid (hd ?A) + ask (hd ?A)) / 2
                       else (case c_lastPrice c of None \<Rightarrow> 0 | Some l \<Rightarrow> l))"
       "intrinsic (hd ?A) = max 0 (150 - strike (hd ?A))"
       "extrinsic (hd ?A) = max 0 (mid (hd ?A) - intrinsic (hd ?A))"
    by blast
  from c have "c = exampleCall 160 (Some (24/10)) (Some (26/10)) None None" by simp
  with f have "mid (hd ?A) = 5/2" "intrinsic (hd ?A) = 0" "extrinsic (hd ?A) = 5/2"
    by (simp_all add: exampleCall_def)
  with h show ?thesis by blast
qed

section \<open>Days to expiry are at least one\<close>

text \<open>
  Claim C4. For every expiration timestamp and every reading of the clock, the days to
  expiry are \<open>max 1 (ceiling ((expiryTs - now) / 86400))\<close> and so at least 1. Every
  analysed contract carries that value, it is not zero, the extrinsic value per day
  times the days gives the extrinsic value back, and the quotient \<open>365 / dte\<close> of the
  annualised yield is a finite number: neither division is a division by zero.
\<close>

theorem dte_at_least_one:
  "daysUntilExpiry nowMs expiryTs = max 1 \<lceil>(expiryTs - real_of_int nowMs / 1000) / 86400\<rceil>
   \<and> 1 \<le> daysUntilExpiry nowMs expiryTs
   \<and> (\<forall>opt \<in> set (analyzeCallOptions nowMs calls spotPrice expiryTs numStrikes).
          dte opt = daysUntilExpiry nowMs expiryTs
        \<and> real_of_int (dte opt) \<noteq> 0
        \<and> extrinsicPerDTE opt * real_of_int (dte opt) = extrinsic opt
        \<and> js_div 365 (real_of_int (dte opt)) = Fin (365 / real_of_int (dte opt)))"
proof -
  have pos: "1 \<le> daysUntilExpiry nowMs expiryTs" by (rule daysUntilExpiry_pos)
  have "dte opt = daysUntilExpiry nowMs expiryTs
        \<and> real_of_int (dte opt) \<noteq> 0
        \<and> extrinsicPerDTE opt * real_of_int (dte opt) = extrinsic opt
        \<and> js_div 365 (real_of_int (dte opt)) = Fin (365 / real_of_int (dte opt))"
    if "opt \<in> set (analyzeCallOptions nowMs calls spotPrice expiryTs numStrikes)" for opt
  proof -
    from analyze_elem[OF that] obtain c where
      opt: "opt = deriveOption spotPrice (daysUntilExpiry nowMs expiryTs)
            (strikeIncrement (sort_key c_strike calls) (findAtm spotPrice (sort_key c_strike calls))) c"
      by blast
    have d: "dte opt = daysUntilExpiry nowMs expiryTs"
      by (simp add: opt deriveOption_def Let_def)
    with pos have nz: "real_of_int (dte opt) \<noteq> 0" by simp
    have "extrinsicPerDTE opt = extrinsic opt / real_of_int (dte opt)"
      by (simp add: opt deriveOption_def Let_def)
    with nz have "extrinsicPerDTE opt * real_of_int (dte opt) = extrinsic opt" by simp
    with d nz show ?thesis by (simp add: js_div_def)
  qed
  moreover have "daysUntilExpiry nowMs expiryTs = max 1 \<lceil>(expiryTs - real_of_int nowMs / 1000) / 86400\<rceil>"
    by (simp add: daysUntilExpiry_def)
  ultimately show ?thesis using pos by blast
qed

theorem dte_at_least_one_witness:
  "hd (analyzeCallOptions 1000000000 [exampleCall 160 (Some (24/10)) (Some (26/10)) None None] 150 86400 3)
     \<in> set (analyzeCallOptions 1000000000 [exampleCall 160 (Some (24/10)) (Some (26/10)) None None] 150 86400 3)
   \<and> daysUntilExpiry 1000000000 86400 = 1
   \<and> dte (hd (analyzeCallOptions 1000000000 [exampleCall 160 (Some (24/10)) (Some (26/10)) None None] 150 86400 3)) = 1"
proof -
  let ?A = "analyzeCallOptions 1000000000 [exampleCall 160 (Some (24/10)) (Some (26/10)) None None] 150 86400 3"
  have "?A \<noteq> []"
    by (simp add: analyzeCallOptions_def Let_def findAtm_def selectWindow_def js_slice_def)
  then have h: "hd ?A \<in> set ?A" by simp
  have v: "daysUntilExpiry 1000000000 86400 = 1"
    by (simp add: daysUntilExpiry_def) 
  from dte_at_least_one[of 1000000000 86400 "[exampleCall 160 (Some (24/10)) (Some (26/10)) None None]" 150 3] h
  have "dte (hd ?A) = daysUntilExpiry 1000000000 86400" by blast
  with h v show ?thesis by simp
qed

section \<open>No contracts\<close>

text \<open>
  Claim C10. On an empty contract list \<^verbatim>\<open>analyzeCallOptions\<close> returns the empty list,
  for every spot price, timestamp, clock and window size: the at-the-money index stays
  0 and the selected slice is empty. The function has no failing branch.
\<close>

theorem analyze_empty:
  "analyzeCallOptions nowMs [] spotPrice expiryTs numStrikes = []
   \<and> findAtm spotPrice (sort_key c_strike []) = 0
   \<and> selectWindow (sort_key c_strike []) (findAtm spotPrice (sort_key c_strike [])) numStrikes = []"
  by (simp add: analyze_is_map findAtm_Nil selectWindow_def js_slice_Nil Let_def)

section \<open>Greeks and implied volatility\<close>

text \<open>
  Claim C5, as the code has it. Every returned contract carries the delta, gamma,
  theta, vega and rho of its source contract unchanged, \<^term>\<open>None\<close> (null) when the feed
  has no number there. The implied volatility is different: it is the feed's number
  when there is one and the number 0, not null, when there is none.
\<close>

theorem greeks_pass_through:
  assumes "opt \<in> set (analyzeCallOptions nowMs calls spotPrice expiryTs numStrikes)"
  shows "\<exists>c\<in>set calls.
           strike opt = c_strike c
         \<and> delta opt = c_delta c \<and> gamma opt = c_gamma c \<and> theta opt = c_theta c
         \<and> vega opt = c_vega c \<and> rho opt = c_rho c
         \<and> impliedVol opt = Some (case c_impliedVolatility c of None \<Rightarrow> 0 | Some v \<Rightarrow> v)"
proof -
  from analyze_elem[OF assms] obtain c where c: "c \<in> set calls"
    and opt: "opt = deriveOption spotPrice (daysUntilExpiry nowMs expiryTs)
            (strikeIncrement (sort_key c_strike calls) (findAtm spotPrice (sort_key c_strike calls))) c"
    by blast
  have "strike opt = c_strike c \<and> delta opt = c_delta c \<and> gamma opt = c_gamma c
        \<and> theta opt = c_theta c \<and> vega opt = c_vega c \<and> rho opt = c_rho c
        \<and> impliedVol opt = Some (case c_impliedVolatility c of None \<Rightarrow> 0 | Some v \<Rightarrow> v)"
    by (simp add: opt deriveOption_def Let_def orZero_eq)
  with c show ?thesis by blast
qed

theorem greeks_pass_through_witness:
  "hd (analyzeCallOptions 0 [exampleCall 160 (Some (24/10)) (Some (26/10)) None (Some 0)] 150 86400 3)
     \<in> set (analyzeCallOptions 0 [exampleCall 160 (Some (24/10)) (Some (26/10)) None (Some 0)] 150 86400 3)
   \<and> delta (hd (analyzeCallOptions 0 [exampleCall 160 (Some (24/10)) (Some (26/10)) None (Some 0)] 150 86400 3)) = Some 0
   \<and> gamma (hd (analyzeCallOptions 0 [exampleCall 160 (Some (24/10)) (Some (26/10)) None (Some 0)] 150 86400 3)) = None
   \<and> impliedVol (hd (analyzeCallOptions 0 [exampleCall 160 (Some (24/10)) (Some (26/10)) None (Some 0)] 150 86400 3)) = Some 0"
proof -
  let ?c = "exampleCall 160 (Some (24/10)) (Some (26/10)) None (Some 0)"
  let ?A = "analyzeCallOptions 0 [?c] 150 86400 3"
  have "?A \<noteq> []"
    by (simp add: analyzeCallOptions_def Let_def findAtm_def selectWindow_def js_slice_def)
  then have h: "hd ?A \<in> set ?A" by simp
  from greeks_pass_through[OF h] obtain c where
    c: "c \<in> set [?c]"
    and f: "delta (hd ?A) = c_delta c" "gamma (hd ?A) = c_gamma c"
       "impliedVol (hd ?A) = Some (case c_impliedVolatility c of None \<Rightarrow> 0 | Some v \<Rightarrow> v)"
    by blast
  from c have "c = ?c" by simp
  with f have "delta (hd ?A) = Some 0" "gamma (hd ?A) = None" "impliedVol (hd ?A) = Some 0"
    by (simp_all add: exampleCall_def)
  with h show ?thesis by blast
qed

text \<open>
  Claim C5 as stated fails for the implied volatility: a contract without one is
  reported with implied volatility 0.
\<close>

theorem implied_vol_counterexample:
  "c_impliedVolatility (exampleCall 160 (Some (24/10)) (Some (26/10)) None None) = None
   \<and> map impliedVol (analyzeCallOptions 0 [exampleCall 160 (Some (24/10)) (Some (26/10)) None None] 150 86400 3)
       = [Some 0]"
  by (simp add: analyzeCallOptions_def Let_def findAtm_def selectWindow_def js_slice_def
      strikeIncrement_def deriveOption_def exampleCall_def orZero_def daysUntilExpiry_def)

section \<open>The window around the at-the-money strike\<close>

text \<open>
  Claim C6. \<^verbatim>\<open>analyzeCallOptions\<close> sorts the contracts ascending by strike (a
  permutation of the input), takes as at-the-money index the first index at which the
  distance of the strike to the spot price is least, and returns the derived contracts
  of the positions from \<open>numStrikes\<close> below that index to \<open>numStrikes\<close> above it, clipped
  to the list. For a window size \<open>numStrikes \<ge> 0\<close> the output therefore has at most
  \<open>2 * numStrikes + 1\<close> contracts.
\<close>

theorem analyze_window:
  assumes "0 \<le> numStrikes"
  shows "let srt = sort_key c_strike calls;
             atm = findAtm spotPrice srt;
             lo = nat (max 0 (int atm - numStrikes));
             hi = nat (min (int (length srt)) (int atm + numStrikes + 1))
         in sorted (map c_strike srt) \<and> mset srt = mset calls
          \<and> (calls \<noteq> [] \<longrightarrow>
                atm < length srt
              \<and> (\<forall>j<length srt. \<bar>c_strike (srt ! atm) - spotPrice\<bar> \<le> \<bar>c_strike (srt ! j) - spotPrice\<bar>)
              \<and> (\<forall>j<atm. \<bar>c_strike (srt ! atm) - spotPrice\<bar> < \<bar>c_strike (srt ! j) - spotPrice\<bar>))
          \<and> analyzeCallOptions nowMs calls spotPrice expiryTs numStrikes =
              map (\<lambda>i. deriveOption spotPrice (daysUntilExpiry nowMs expiryTs)
                          (strikeIncrement srt atm) (srt ! i)) [lo..<hi]
          \<and> int (length (analyzeCallOptions nowMs calls spotPrice expiryTs numStrikes))
              \<le> 2 * numStrikes + 1"
proof -
  define srt where "srt = sort_key c_strike calls"
  define atm where "atm = findAtm spotPrice srt"
  define s where "s = max 0 (int atm - numStrikes)"
  define e where "e = min (int (length srt)) (int atm + numStrikes + 1)"
  have srt: "sorted (map c_strike srt)" "mset srt = mset calls"
    by (simp_all add: srt_def)
  have atm_le: "atm \<le> length srt" unfolding atm_def by (rule findAtm_le)
  have atm_min: "calls \<noteq> [] \<longrightarrow>
                atm < length srt
              \<and> (\<forall>j<length srt. \<bar>c_strike (srt ! atm) - spotPrice\<bar> \<le> \<bar>c_strike (srt ! j) - spotPrice\<bar>)
              \<and> (\<forall>j<atm. \<bar>c_strike (srt ! atm) - spotPrice\<bar> < \<bar>c_strike (srt ! j) - spotPrice\<bar>)"
  proof
    assume "calls \<noteq> []"
    then have "srt \<noteq> []" using srt(2) by auto
    from findAtm_first_min[OF this, of spotPrice] show "atm < length srt
              \<and> (\<forall>j<length srt. \<bar>c_strike (srt ! atm) - spotPrice\<bar> \<le> \<bar>c_strike (srt ! j) - spotPrice\<bar>)
              \<and> (\<forall>j<atm. \<bar>c_strike (srt ! atm) - spotPrice\<bar> < \<bar>c_strike (srt ! j) - spotPrice\<bar>)"
      unfolding atm_def by blast
  qed
  have rng: "0 \<le> s" "s \<le> e" "e \<le> int (length srt)" "0 \<le> e"
    using assms atm_le by (simp_all add: s_def e_def)
  have sel: "selectWindow srt atm numStrikes = map ((!) srt) [nat s..<nat e]"
    using js_slice_inrange[OF rng(1,2,3)] by (simp add: selectWindow_def Let_def s_def e_def)
  have an: "analyzeCallOptions nowMs calls spotPrice expiryTs numStrikes =
              map (\<lambda>i. deriveOption spotPrice (daysUntilExpiry nowMs expiryTs)
                          (strikeIncrement srt atm) (srt ! i)) [nat s..<nat e]"
    by (simp add: analyze_is_map sel[unfolded srt_def atm_def] srt_def atm_def comp_def)
  have "e - s \<le> 2 * numStrikes + 1" by (simp add: s_def e_def)
  then have len: "int (length (analyzeCallOptions nowMs calls spotPrice expiryTs numStrikes))
              \<le> 2 * numStrikes + 1"
    using rng by (simp add: an)
  from srt atm_min an len show ?thesis
    unfolding Let_def srt_def[symmetric] atm_def[symmetric] s_def[symmetric] e_def[symmetric]
    by blast
qed

theorem analyze_window_witness:
  "(0::int) \<le> 1
   \<and> findAtm 105 (sort_key c_strike
        [exampleCall 105 None None None None, exampleCall 110 None None None None,
         exampleCall 100 None None None None]) = 1
   \<and> map strike (analyzeCallOptions 0
        [exampleCall 105 None None None None, exampleCall 110 None None None None,
         exampleCall 100 None None None None] 105 86400 1) = [100, 105, 110]
   \<and> int (length (analyzeCallOptions 0
        [exampleCall 105 None None None None, exampleCall 110 None None None None,
         exampleCall 100 None None None None] 105 86400 1)) \<le> 2 * 1 + 1"
proof -
  let ?cs = "[exampleCall 105 None None None None, exampleCall 110 None None None None,
              exampleCall 100 None None None None]"
  have h: "(0::int) \<le> 1" by simp
  have srt: "sort_key c_strike ?cs = [exampleCall 100 None None None None,
      exampleCall 105 None None None None, exampleCall 110 None None None None]"
    by (simp add: exampleCall_def)
  have atm: "findAtm 105 (sort_key c_strike ?cs) = 1"
    unfolding srt by (simp add: exampleCall_def findAtm_def)
  from analyze_window[OF h, of ?cs 105 0 86400]
  have an: "analyzeCallOptions 0 ?cs 105 86400 1 =
      map (\<lambda>i. deriveOption 105 (daysUntilExpiry 0 86400)
             (strikeIncrement (sort_key c_strike ?cs) (findAtm 105 (sort_key c_strike ?cs)))
             (sort_key c_strike ?cs ! i))
        [nat (max 0 (int (findAtm 105 (sort_key c_strike ?cs)) - 1))
          ..<nat (min (int (length (sort_key c_strike ?cs))) (int (findAtm 105 (sort_key c_strike ?cs)) + 1 + 1))]"
    and len: "int (length (analyzeCallOptions 0 ?cs 105 86400 1)) \<le> 2 * 1 + 1"
    unfolding Let_def by blast+
  have "map strike (analyzeCallOptions 0 ?cs 105 86400 1) = [100, 105, 110]"
    unfolding an atm unfolding srt
    by (simp add: deriveOption_def Let_def exampleCall_def upt_conv_Cons)
  with h atm len show ?thesis by blast
qed

section \<open>Dense ranks and the order of the ranking\<close>

lemma truncate_withRank: "AnalyzedOption.truncate (withRank opt r) = opt"
  by (simp add: withRank_def AnalyzedOption.defs RankedOption.defs)

lemma rank_withRank: "rank (withRank opt r) = r"
  by (simp add: withRank_def AnalyzedOption.defs RankedOption.defs)

lemma extrinsic_truncate: "extrinsic (AnalyzedOption.truncate r) = extrinsic r"
  by (simp add: AnalyzedOption.defs)

lemma map_truncate_assignRanks: "map AnalyzedOption.truncate (assignRanks xs) = xs"
proof -
  have "map AnalyzedOption.truncate (assignRanks xs) = map snd (enumerate 0 xs)"
    unfolding assignRanks_def map_map
    by (rule map_cong) (auto simp: truncate_withRank)
  then show ?thesis by (simp add: map_snd_enumerate)
qed

lemma map_rank_assignRanks: "map rank (assignRanks xs) = [1..<Suc (length xs)]"
proof -
  have "map rank (assignRanks xs) = map Suc (map fst (enumerate 0 xs))"
    unfolding assignRanks_def map_map
    by (rule map_cong) (auto simp: rank_withRank)
  also have "\<dots> = map Suc [0..<length xs]" by (simp add: map_fst_enumerate)
  also have "\<dots> = [1..<Suc (length xs)]" by (simp add: map_Suc_upt)
  finally show ?thesis .
qed

lemma mset_sortDescBy: "mset (sortDescBy k xs) = mset xs"
  by (simp add: sortDescBy_def)

lemma sorted_sortDescBy: "sorted_wrt (\<lambda>a b. k b \<le> k a) (sortDescBy k xs)"
proof -
  have "sorted (map (\<lambda>x. - k x) (sortDescBy k xs))"
    unfolding sortDescBy_def by (rule sorted_sort_key)
  then show ?thesis by (simp add: sorted_map)
qed

lemma stable_sortDescBy:
  "filter (\<lambda>x. k x = v) (sortDescBy k xs) = filter (\<lambda>x. k x = v) xs"
proof -
  have "filter (\<lambda>x. - k x = - v) (sort_key (\<lambda>x. - k x) xs) = filter (\<lambda>x. - k x = - v) xs"
    by (rule sort_key_stable)
  then show ?thesis by (simp add: sortDescBy_def)
qed

lemma mset_scored_unscored:
  "mset (filter isScored xs) + mset (filter isUnscored xs) = mset xs"
proof -
  have h: "isUnscored = (\<lambda>x. \<not> isScored x)"
    by (auto simp: isScored_def isUnscored_def fun_eq_iff split: option.splits)
  show ?thesis
    unfolding h mset_filter using multiset_partition[of "mset xs" isScored] by simp
qed

lemma rankByEfficiency_unranked:
  "map AnalyzedOption.truncate (rankByEfficiency options) =
     (if list_ex (\<lambda>opt. efficiencyScore opt \<noteq> None) options
      then sortDescBy scoreNum (filter isScored (filter isRankable options))
           @ sortDescBy fallbackScore (filter isUnscored (filter isRankable options))
      else sortDescBy fallbackScore (filter isRankable options))"
  by (simp add: rankByEfficiency_def Let_def map_truncate_assignRanks)

lemma mset_rankByEfficiency:
  "mset (map AnalyzedOption.truncate (rankByEfficiency options)) = mset (filter isRankable options)"
  unfolding rankByEfficiency_unranked
  using mset_scored_unscored[of "filter isRankable options"]
  by (simp add: mset_sortDescBy)

lemma length_assignRanks: "length (assignRanks xs) = length xs"
  by (simp add: assignRanks_def)

lemma rankByEfficiency_assigned:
  "rankByEfficiency options = assignRanks (map AnalyzedOption.truncate (rankByEfficiency options))"
  by (simp add: rankByEfficiency_def Let_def map_truncate_assignRanks)

lemma map_rank_rankByEfficiency:
  "map rank (rankByEfficiency options) = [1..<Suc (length (rankByEfficiency options))]"
proof -
  have "map rank (rankByEfficiency options)
      = map rank (assignRanks (map AnalyzedOption.truncate (rankByEfficiency options)))"
    using rankByEfficiency_assigned[of options] by simp
  then show ?thesis by (simp only: map_rank_assignRanks length_map)
qed

lemma length_rankByEfficiency:
  "length (rankByEfficiency options) = length (filter isRankable options)"
  by (metis length_map mset_rankByEfficiency size_mset)

lemma sorted_wrt_scored:
  assumes "\<forall>x\<in>set xs. isScored x" "sorted_wrt (\<lambda>a b. scoreNum b \<le> scoreNum a) xs"
  shows "sorted_wrt (\<lambda>a b. \<exists>x y. efficiencyScore a = Some x \<and> efficiencyScore b = Some y \<and> y \<le> x) xs"
proof (rule sorted_wrt_mono_rel[OF _ assms(2)])
  fix a b assume "a \<in> set xs" "b \<in> set xs" "scoreNum b \<le> scoreNum a"
  with assms(1) show "\<exists>x y. efficiencyScore a = Some x \<and> efficiencyScore b = Some y \<and> y \<le> x"
    by (auto simp: isScored_def scoreNum_def split: option.splits)
qed

lemma rankByEfficiency_no_scores:
  assumes "\<forall>opt\<in>set (filter isRankable options). efficiencyScore opt = None"
  shows "map AnalyzedOption.truncate (rankByEfficiency options)
           = sortDescBy fallbackScore (filter isRankable options)"
proof -
  have "filter isScored (filter isRankable options) = []"
    using assms by (auto simp: filter_empty_conv isScored_def)
  moreover have "filter isUnscored (filter isRankable options) = filter isRankable options"
    unfolding filter_id_conv using assms by (simp add: isUnscored_def)
  ultimately show ?thesis
    by (simp only: rankByEfficiency_unranked sortDescBy_def sort_key_simps append_Nil if_cancel)
qed

lemma rankByEfficiency_some_score:
  assumes "\<exists>opt\<in>set (filter isRankable options). efficiencyScore opt \<noteq> None"
  shows "map AnalyzedOption.truncate (rankByEfficiency options)
           = sortDescBy scoreNum (filter isScored (filter isRankable options))
             @ sortDescBy fallbackScore (filter isUnscored (filter isRankable options))"
proof -
  from assms have "list_ex (\<lambda>opt. efficiencyScore opt \<noteq> None) options"
    by (auto simp: list_ex_iff)
  then show ?thesis by (simp only: rankByEfficiency_unranked if_True)
qed

text \<open>
  Claim C2. For every list of analysed contracts, the ranks that \<^verbatim>\<open>rankByEfficiency\<close>
  assigns are, in output order, exactly 1, 2, ..., N, where N is the number of input
  contracts with extrinsic value above 0.01 (so there is no gap and no duplicate); the
  ranked contracts without their rank are, as a multiset, exactly those input
  contracts; and no ranked contract has an extrinsic value of 0.01 or less.
\<close>

theorem rank_dense:
  "map rank (rankByEfficiency options)
     = [1..<Suc (length (filter (\<lambda>opt. 1 / 100 < extrinsic opt) options))]
   \<and> distinct (map rank (rankByEfficiency options))
   \<and> mset (map AnalyzedOption.truncate (rankByEfficiency options))
       = mset (filter (\<lambda>opt. 1 / 100 < extrinsic opt) options)
   \<and> (\<forall>r\<in>set (rankByEfficiency options). 1 / 100 < extrinsic r)"
proof -
  have f: "filter isRankable options = filter (\<lambda>opt. 1 / 100 < extrinsic opt) options"
    by (rule filter_cong) (simp_all add: isRankable_def)
  have ranks: "map rank (rankByEfficiency options)
     = [1..<Suc (length (filter (\<lambda>opt. 1 / 100 < extrinsic opt) options))]"
    using map_rank_rankByEfficiency[of options] by (simp add: length_rankByEfficiency f)
  have ms: "mset (map AnalyzedOption.truncate (rankByEfficiency options))
       = mset (filter (\<lambda>opt. 1 / 100 < extrinsic opt) options)"
    using mset_rankByEfficiency[of options] by (simp add: f)
  have "1 / 100 < extrinsic r" if "r \<in> set (rankByEfficiency options)" for r
  proof -
    from that have "AnalyzedOption.truncate r \<in> set (map AnalyzedOption.truncate (rankByEfficiency options))"
      by simp
    then have "AnalyzedOption.truncate r \<in> set (filter (\<lambda>opt. 1 / 100 < extrinsic opt) options)"
      using ms by (metis set_mset_mset)
    then show ?thesis by (simp add: extrinsic_truncate)
  qed
  moreover have "distinct (map rank (rankByEfficiency options))"
    unfolding ranks by simp
  ultimately show ?thesis using ranks ms by blast
qed

theorem rank_dense_witness:
  "hd (rankByEfficiency [exampleAnalyzed 100 (5 / 1000) (Some 9) 9,
        exampleAnalyzed 105 2 None 1, exampleAnalyzed 110 1 (Some 3) 2])
     \<in> set (rankByEfficiency [exampleAnalyzed 100 (5 / 1000) (Some 9) 9,
        exampleAnalyzed 105 2 None 1, exampleAnalyzed 110 1 (Some 3) 2])
   \<and> 1 / 100 < extrinsic (hd (rankByEfficiency [exampleAnalyzed 100 (5 / 1000) (Some 9) 9,
        exampleAnalyzed 105 2 None 1, exampleAnalyzed 110 1 (Some 3) 2]))
   \<and> map rank (rankByEfficiency [exampleAnalyzed 100 (5 / 1000) (Some 9) 9,
        exampleAnalyzed 105 2 None 1, exampleAnalyzed 110 1 (Some 3) 2]) = [1, 2]"
proof -
  let ?ex = "[exampleAnalyzed 100 (5 / 1000) (Some 9) 9, exampleAnalyzed 105 2 None 1,
              exampleAnalyzed 110 1 (Some 3) 2]"
  have n: "length (filter (\<lambda>opt. 1 / 100 < extrinsic opt) ?ex) = 2"
    by (simp add: exampleAnalyzed_def)
  from rank_dense[of ?ex]
  have a: "map rank (rankByEfficiency ?ex)
             = [1..<Suc (length (filter (\<lambda>opt. 1 / 100 < extrinsic opt) ?ex))]"
    and b: "\<forall>r\<in>set (rankByEfficiency ?ex). 1 / 100 < extrinsic r"
    by blast+
  have r: "map rank (rankByEfficiency ?ex) = [1, 2]"
    unfolding a n by (simp add: upt_conv_Cons)
  then have "rankByEfficiency ?ex \<noteq> []" by auto
  then have h: "hd (rankByEfficiency ?ex) \<in> set (rankByEfficiency ?ex)" by simp
  with b have "1 / 100 < extrinsic (hd (rankByEfficiency ?ex))" by blast
  with h r show ?thesis by blast
qed

text \<open>
  Claim C3. Let the rankable contracts be those with extrinsic value above 0.01. If one
  of them has an efficiency score, the output is the scored rankable contracts (score
  present and positive) in descending order of score, followed by the remaining
  rankable contracts (score null or not positive) in descending order of fallback score.
  If none of them has an efficiency score, the output is all rankable contracts in
  descending order of fallback score. In both cases the ranks are 1, 2, ..., N in
  output order. (The source tests for a score on all contracts, rankable or not; when
  only unrankable contracts have a score the scored part is empty and the result is
  the same.)
\<close>

theorem rank_ordering_mode:
  "let rankable = filter (\<lambda>opt. 1 / 100 < extrinsic opt) options;
       out = map AnalyzedOption.truncate (rankByEfficiency options)
   in ((\<exists>opt\<in>set rankable. efficiencyScore opt \<noteq> None) \<longrightarrow>
         (\<exists>scored unscored. out = scored @ unscored
            \<and> mset scored
                = mset (filter (\<lambda>opt. case efficiencyScore opt of None \<Rightarrow> False | Some s \<Rightarrow> 0 < s) rankable)
            \<and> mset unscored
                = mset (filter (\<lambda>opt. case efficiencyScore opt of None \<Rightarrow> True | Some s \<Rightarrow> s \<le> 0) rankable)
            \<and> sorted_wrt (\<lambda>a b. \<exists>x y. efficiencyScore a = Some x \<and> efficiencyScore b = Some y \<and> y \<le> x) scored
            \<and> sorted_wrt (\<lambda>a b. fallbackScore b \<le> fallbackScore a) unscored))
    \<and> ((\<forall>opt\<in>set rankable. efficiencyScore opt = None) \<longrightarrow>
          mset out = mset rankable \<and> sorted_wrt (\<lambda>a b. fallbackScore b \<le> fallbackScore a) out)
    \<and> map rank (rankByEfficiency options) = [1..<Suc (length out)]"
proof -
  define rankable where "rankable = filter (\<lambda>opt. 1 / 100 < extrinsic opt) options"
  define out where "out = map AnalyzedOption.truncate (rankByEfficiency options)"
  have f: "filter isRankable options = rankable"
    unfolding rankable_def by (rule filter_cong) (simp_all add: isRankable_def)
  have sc: "isScored = (\<lambda>opt. case efficiencyScore opt of None \<Rightarrow> False | Some s \<Rightarrow> 0 < s)"
    and un: "isUnscored = (\<lambda>opt. case efficiencyScore opt of None \<Rightarrow> True | Some s \<Rightarrow> s \<le> 0)"
    by (simp_all add: isScored_def isUnscored_def fun_eq_iff)
  have A: "\<exists>scored unscored. out = scored @ unscored
            \<and> mset scored
                = mset (filter (\<lambda>opt. case efficiencyScore opt of None \<Rightarrow> False | Some s \<Rightarrow> 0 < s) rankable)
            \<and> mset unscored
                = mset (filter (\<lambda>opt. case efficiencyScore opt of None \<Rightarrow> True | Some s \<Rightarrow> s \<le> 0) rankable)
            \<and> sorted_wrt (\<lambda>a b. \<exists>x y. efficiencyScore a = Some x \<and> efficiencyScore b = Some y \<and> y \<le> x) scored
            \<and> sorted_wrt (\<lambda>a b. fallbackScore b \<le> fallbackScore a) unscored"
    if h: "\<exists>opt\<in>set rankable. efficiencyScore opt \<noteq> None"
  proof -
    let ?S = "sortDescBy scoreNum (filter isScored rankable)"
    let ?U = "sortDescBy fallbackScore (filter isUnscored rankable)"
    have o: "out = ?S @ ?U"
      using rankByEfficiency_some_score[of options] h by (simp add: f out_def)
    have mS: "mset ?S = mset (filter (\<lambda>opt. case efficiencyScore opt of None \<Rightarrow> False | Some s \<Rightarrow> 0 < s) rankable)"
      by (simp only: mset_sortDescBy sc)
    have mU: "mset ?U = mset (filter (\<lambda>opt. case efficiencyScore opt of None \<Rightarrow> True | Some s \<Rightarrow> s \<le> 0) rankable)"
      by (simp only: mset_sortDescBy un)
    have "\<forall>x\<in>set ?S. isScored x"
    proof
      fix x assume "x \<in> set ?S"
      then have "x \<in># mset ?S" by simp
      then have "x \<in># mset (filter isScored rankable)" by (simp only: mset_sortDescBy)
      then show "isScored x" by simp
    qed
    then have sS: "sorted_wrt (\<lambda>a b. \<exists>x y. efficiencyScore a = Some x \<and> efficiencyScore b = Some y \<and> y \<le> x) ?S"
      by (rule sorted_wrt_scored) (rule sorted_sortDescBy)
    have sU: "sorted_wrt (\<lambda>a b. fallbackScore b \<le> fallbackScore a) ?U"
      by (rule sorted_sortDescBy)
    from o mS mU sS sU show ?thesis by blast
  qed
  have B: "mset out = mset rankable \<and> sorted_wrt (\<lambda>a b. fallbackScore b \<le> fallbackScore a) out"
    if h: "\<forall>opt\<in>set rankable. efficiencyScore opt = None"
  proof -
    have "out = sortDescBy fallbackScore rankable"
      using rankByEfficiency_no_scores[of options] h by (simp add: f out_def)
    then show ?thesis by (simp only: mset_sortDescBy sorted_sortDescBy simp_thms)
  qed
  have C: "map rank (rankByEfficiency options) = [1..<Suc (length out)]"
    using map_rank_rankByEfficiency[of options] by (simp add: out_def)
  from A B C show ?thesis
    unfolding Let_def rankable_def[symmetric] out_def[symmetric] by blast
qed

theorem rank_ordering_mode_witness:
  "map efficiencyScore (filter (\<lambda>opt. 1 / 100 < extrinsic opt)
        [exampleAnalyzed 100 (5 / 1000) (Some 9) 9, exampleAnalyzed 105 2 None 1,
         exampleAnalyzed 110 1 (Some 3) 2, exampleAnalyzed 115 3 (Some 5) (1 / 2)])
     = [None, Some 3, Some 5]
   \<and> map strike (rankByEfficiency
        [exampleAnalyzed 100 (5 / 1000) (Some 9) 9, exampleAnalyzed 105 2 None 1,
         exampleAnalyzed 110 1 (Some 3) 2, exampleAnalyzed 115 3 (Some 5) (1 / 2)]) = [115, 110, 105]
   \<and> map rank (rankByEfficiency
        [exampleAnalyzed 100 (5 / 1000) (Some 9) 9, exampleAnalyzed 105 2 None 1,
         exampleAnalyzed 110 1 (Some 3) 2, exampleAnalyzed 115 3 (Some 5) (1 / 2)]) = [1, 2, 3]
   \<and> map efficiencyScore (filter (\<lambda>opt. 1 / 100 < extrinsic opt)
        [exampleAnalyzed 100 (5 / 1000) (Some 9) 9, exampleAnalyzed 105 2 None 1,
         exampleAnalyzed 110 1 None 2])
     = [None, None]
   \<and> sorted_wrt (\<lambda>a b. fallbackScore b \<le> fallbackScore a)
        (map AnalyzedOption.truncate (rankByEfficiency
          [exampleAnalyzed 100 (5 / 1000) (Some 9) 9, exampleAnalyzed 105 2 None 1,
           exampleAnalyzed 110 1 None 2]))
   \<and> map strike (rankByEfficiency
        [exampleAnalyzed 100 (5 / 1000) (Some 9) 9, exampleAnalyzed 105 2 None 1,
         exampleAnalyzed 110 1 None 2]) = [110, 105]"
proof -
  let ?e1 = "[exampleAnalyzed 100 (5 / 1000) (Some 9) 9, exampleAnalyzed 105 2 None 1,
         exampleAnalyzed 110 1 (Some 3) 2, exampleAnalyzed 115 3 (Some 5) (1 / 2)]"
  let ?e2 = "[exampleAnalyzed 100 (5 / 1000) (Some 9) 9, exampleAnalyzed 105 2 None 1,
         exampleAnalyzed 110 1 None 2]"
  have h1: "map efficiencyScore (filter (\<lambda>opt. 1 / 100 < extrinsic opt) ?e1) = [None, Some 3, Some 5]"
    by (simp add: exampleAnalyzed_def)
  have h2: "map efficiencyScore (filter (\<lambda>opt. 1 / 100 < extrinsic opt) ?e2) = [None, None]"
    by (simp add: exampleAnalyzed_def)
  have "set (map efficiencyScore (filter (\<lambda>opt. 1 / 100 < extrinsic opt) ?e2)) = {None}"
    unfolding h2 by simp
  then have h2': "\<forall>opt\<in>set (filter (\<lambda>opt. 1 / 100 < extrinsic opt) ?e2). efficiencyScore opt = None"
    by (metis (no_types, lifting) imageI set_map singletonD)
  have v1: "map strike (rankByEfficiency ?e1) = [115, 110, 105]"
    by (simp add: rankByEfficiency_def Let_def exampleAnalyzed_def isRankable_def isScored_def
        isUnscored_def sortDescBy_def assignRanks_def enumerate_eq_zip scoreNum_def upt_conv_Cons
        withRank_def AnalyzedOption.defs RankedOption.defs)
  have v2: "map strike (rankByEfficiency ?e2) = [110, 105]"
    by (simp add: rankByEfficiency_def Let_def exampleAnalyzed_def isRankable_def isScored_def
        isUnscored_def sortDescBy_def assignRanks_def enumerate_eq_zip scoreNum_def upt_conv_Cons
        withRank_def AnalyzedOption.defs RankedOption.defs)
  have "length (rankByEfficiency ?e1) = 3"
    using arg_cong[OF v1, of length] by simp
  with rank_ordering_mode[of ?e1]
  have r1: "map rank (rankByEfficiency ?e1) = [1, 2, 3]"
    unfolding Let_def by (simp add: upt_conv_Cons)
  from rank_ordering_mode[of ?e2] h2'
  have s2: "sorted_wrt (\<lambda>a b. fallbackScore b \<le> fallbackScore a)
        (map AnalyzedOption.truncate (rankByEfficiency ?e2))"
    unfolding Let_def by blast
  from h1 v1 r1 h2 s2 v2 show ?thesis by blast
qed

section \<open>The closest expiration\<close>

lemma closer_cases:
  "closer t x b = (if \<bar>x - t\<bar> < \<bar>b - t\<bar> then x else b)"
  by (simp add: closer_def)

lemma fold_closer:
  "(\<forall>y\<in>set xs. \<bar>fold (closer t) xs b - t\<bar> \<le> \<bar>y - t\<bar>)
   \<and> ((fold (closer t) xs b = b)
      \<or> (\<bar>fold (closer t) xs b - t\<bar> < \<bar>b - t\<bar>
         \<and> (\<exists>pre post. xs = pre @ fold (closer t) xs b # post
               \<and> (\<forall>y\<in>set pre. \<bar>fold (closer t) xs b - t\<bar> < \<bar>y - t\<bar>))))"
proof (induction xs arbitrary: b)
  case Nil
  then show ?case by simp
next
  case (Cons x xs)
  let ?b' = "closer t x b"
  let ?r = "fold (closer t) xs ?b'"
  have r: "fold (closer t) (x # xs) b = ?r" by simp
  from Cons.IH[of ?b'] have le: "\<forall>y\<in>set xs. \<bar>?r - t\<bar> \<le> \<bar>y - t\<bar>"
    and alt: "?r = ?b' \<or> (\<bar>?r - t\<bar> < \<bar>?b' - t\<bar>
         \<and> (\<exists>pre post. xs = pre @ ?r # post \<and> (\<forall>y\<in>set pre. \<bar>?r - t\<bar> < \<bar>y - t\<bar>)))"
    by blast+
  have b'le: "\<bar>?b' - t\<bar> \<le> \<bar>x - t\<bar>" "\<bar>?b' - t\<bar> \<le> \<bar>b - t\<bar>"
    by (simp_all add: closer_def)
  have rle: "\<bar>?r - t\<bar> \<le> \<bar>?b' - t\<bar>" using alt by auto
  have all: "\<forall>y\<in>set (x # xs). \<bar>?r - t\<bar> \<le> \<bar>y - t\<bar>"
    using le rle b'le by auto
  have "?r = b \<or> (\<bar>?r - t\<bar> < \<bar>b - t\<bar>
         \<and> (\<exists>pre post. x # xs = pre @ ?r # post \<and> (\<forall>y\<in>set pre. \<bar>?r - t\<bar> < \<bar>y - t\<bar>)))"
  proof (cases "\<bar>x - t\<bar> < \<bar>b - t\<bar>")
    case True
    then have b': "?b' = x" by (simp add: closer_def)
    from alt show ?thesis
    proof
      assume "?r = ?b'"
      then have "?r = x" using b' by simp
      then have "x # xs = [] @ ?r # xs \<and> (\<forall>y\<in>set []. \<bar>?r - t\<bar> < \<bar>y - t\<bar>)" by simp
      moreover have "\<bar>?r - t\<bar> < \<bar>b - t\<bar>" using \<open>?r = x\<close> True by simp
      ultimately show ?thesis by blast
    next
      assume h: "\<bar>?r - t\<bar> < \<bar>?b' - t\<bar>
         \<and> (\<exists>pre post. xs = pre @ ?r # post \<and> (\<forall>y\<in>set pre. \<bar>?r - t\<bar> < \<bar>y - t\<bar>))"
      then obtain pre post where pp: "xs = pre @ ?r # post" "\<forall>y\<in>set pre. \<bar>?r - t\<bar> < \<bar>y - t\<bar>"
        by blast
      from h b' have lt: "\<bar>?r - t\<bar> < \<bar>x - t\<bar>" by simp
      have "x # xs = (x # pre) @ ?r # post" using pp(1) by simp
      moreover have "\<forall>y\<in>set (x # pre). \<bar>?r - t\<bar> < \<bar>y - t\<bar>" using pp(2) lt by simp
      moreover have "\<bar>?r - t\<bar> < \<bar>b - t\<bar>" using lt True by simp
      ultimately show ?thesis by blast
    qed
  next
    case False
    then have b': "?b' = b" by (simp add: closer_def)
    from alt show ?thesis
    proof
      assume "?r = ?b'"
      then show ?thesis using b' by simp
    next
      assume h: "\<bar>?r - t\<bar> < \<bar>?b' - t\<bar>
         \<and> (\<exists>pre post. xs = pre @ ?r # post \<and> (\<forall>y\<in>set pre. \<bar>?r - t\<bar> < \<bar>y - t\<bar>))"
      then obtain pre post where pp: "xs = pre @ ?r # post" "\<forall>y\<in>set pre. \<bar>?r - t\<bar> < \<bar>y - t\<bar>"
        by blast
      from h b' have lt: "\<bar>?r - t\<bar> < \<bar>b - t\<bar>" by simp
      with False have ltx: "\<bar>?r - t\<bar> < \<bar>x - t\<bar>" by simp
      have "x # xs = (x # pre) @ ?r # post" using pp(1) by simp
      moreover have "\<forall>y\<in>set (x # pre). \<bar>?r - t\<bar> < \<bar>y - t\<bar>" using pp(2) ltx by simp
      ultimately show ?thesis using lt by blast
    qed
  qed
  with all show ?case unfolding r by blast
qed

text \<open>
  Claim C7. For a non-empty list of available expirations and a target date that the
  runtime converts to the timestamp \<open>ms / 1000\<close> (16:00 local time of that date),
  \<^verbatim>\<open>findClosestExpiry\<close> returns an element of the list whose distance to that timestamp
  is least; every element before it in the list is strictly farther away, so among
  equidistant elements the first one is returned.
\<close>

theorem closest_expiry:
  assumes "available \<noteq> []"
    and "parseDate (targetDateStr @ ''T16:00:00'') = Some ms"
  shows "\<exists>r pre post.
           findClosestExpiry parseDate available targetDateStr = Some r
         \<and> available = pre @ r # post
         \<and> (\<forall>y\<in>set available. \<bar>r - real_of_int ms / 1000\<bar> \<le> \<bar>y - real_of_int ms / 1000\<bar>)
         \<and> (\<forall>y\<in>set pre. \<bar>r - real_of_int ms / 1000\<bar> < \<bar>y - real_of_int ms / 1000\<bar>)"
proof -
  define t where "t = real_of_int ms / 1000"
  from assms(1) obtain a rest where av: "available = a # rest" by (cases available) auto
  define r where "r = fold (closer t) available a"
  have res: "findClosestExpiry parseDate available targetDateStr = Some r"
    using assms(2) by (simp add: findClosestExpiry_def av r_def t_def)
  from fold_closer[of available t a]
  have le: "\<forall>y\<in>set available. \<bar>r - t\<bar> \<le> \<bar>y - t\<bar>"
    and alt: "r = a \<or> (\<bar>r - t\<bar> < \<bar>a - t\<bar>
         \<and> (\<exists>pre post. available = pre @ r # post \<and> (\<forall>y\<in>set pre. \<bar>r - t\<bar> < \<bar>y - t\<bar>)))"
    unfolding r_def by blast+
  from alt have "\<exists>pre post. available = pre @ r # post \<and> (\<forall>y\<in>set pre. \<bar>r - t\<bar> < \<bar>y - t\<bar>)"
  proof
    assume "r = a"
    then have "available = [] @ r # rest \<and> (\<forall>y\<in>set []. \<bar>r - t\<bar> < \<bar>y - t\<bar>)"
      using av by simp
    then show ?thesis by blast
  next
    assume "\<bar>r - t\<bar> < \<bar>a - t\<bar>
         \<and> (\<exists>pre post. available = pre @ r # post \<and> (\<forall>y\<in>set pre. \<bar>r - t\<bar> < \<bar>y - t\<bar>))"
    then show ?thesis by blast
  qed
  with res le show ?thesis unfolding t_def by blast
qed

theorem closest_expiry_witness:
  "[1, 2, 3 :: real] \<noteq> []
   \<and> (\<lambda>s. if s = ''2026-01-16T16:00:00'' then Some 1500 else None) (''2026-01-16'' @ ''T16:00:00'') = Some 1500
   \<and> findClosestExpiry (\<lambda>s. if s = ''2026-01-16T16:00:00'' then Some 1500 else None) [1, 2, 3] ''2026-01-16'' = Some 1"
proof -
  let ?p = "\<lambda>s. if s = ''2026-01-16T16:00:00'' then Some (1500::int) else None"
  have h1: "[1, 2, 3 :: real] \<noteq> []" by simp
  have h2: "?p (''2026-01-16'' @ ''T16:00:00'') = Some 1500" by simp
  from closest_expiry[OF h1, of ?p "''2026-01-16''" 1500, OF h2]
  obtain r pre post where
    r: "findClosestExpiry ?p [1, 2, 3] ''2026-01-16'' = Some r"
    and d: "[1, 2, 3] = pre @ r # post"
    and le: "\<forall>y\<in>set [1, 2, 3 :: real]. \<bar>r - real_of_int 1500 / 1000\<bar> \<le> \<bar>y - real_of_int 1500 / 1000\<bar>"
    and lt: "\<forall>y\<in>set pre. \<bar>r - real_of_int 1500 / 1000\<bar> < \<bar>y - real_of_int 1500 / 1000\<bar>"
    by blast
  have "r \<in> set [1, 2, 3 :: real]" using d by (metis in_set_conv_decomp)
  then have "r = 1 \<or> r = 2 \<or> r = 3" by auto
  moreover have "r \<noteq> 3" using le by auto
  moreover have "r \<noteq> 2"
  proof
    assume "r = 2"
    with d have "1 \<in> set pre"
      by (cases pre) (auto simp: Cons_eq_append_conv)
    with lt \<open>r = 2\<close> show False by auto
  qed
  ultimately have "r = 1" by blast
  with r h1 h2 show ?thesis by simp
qed

section \<open>Relay fetch: first success and exhaustion\<close>

lemma softFailure_attemptOnce:
  "softFailure parseJson resp \<Longrightarrow> \<exists>e. attemptOnce parseJson resp = Inl e"
  by (auto simp: softFailure_def attemptOnce_def split: response.splits option.splits)

lemma succeedsWith_attemptOnce:
  "succeedsWith parseJson resp d \<Longrightarrow> attemptOnce parseJson resp = Inr d"
  by (auto simp: succeedsWith_def attemptOnce_def split: response.splits option.splits)

lemma round_index: "p < (n::nat) \<Longrightarrow> (a * n + p) div n = a \<and> (a * n + p) mod n = p"
  by simp

lemma responseAt_round:
  assumes "p < length proxyBuilders"
  shows "responseAt net proxyBuilders url (a * length proxyBuilders + p)
           = net (a * length proxyBuilders + p)
               ((proxyBuilders ! ((a + p) mod length proxyBuilders)) url)"
proof -
  from round_index[OF assms, of a]
  show ?thesis by (simp only: responseAt_def Let_def)
qed

lemma proxyLoop_fail:
  assumes "\<forall>p\<in>set ps. p < length proxyBuilders
             \<and> softFailure parseJson (responseAt net proxyBuilders url (a * length proxyBuilders + p))"
  shows "\<exists>le. proxyLoop parseJson net proxyBuilders url a ps lastErr = Inl le"
  using assms
proof (induction ps arbitrary: lastErr)
  case Nil
  then show ?case by simp
next
  case (Cons p ps)
  then have p: "p < length proxyBuilders"
    and sf: "softFailure parseJson (responseAt net proxyBuilders url (a * length proxyBuilders + p))"
    by simp_all
  from softFailure_attemptOnce[OF sf] obtain e where
    e: "attemptOnce parseJson (net (a * length proxyBuilders + p)
               ((proxyBuilders ! ((a + p) mod length proxyBuilders)) url)) = Inl e"
    unfolding responseAt_round[OF p] by blast
  from Cons.prems have rest: "\<forall>p\<in>set ps. p < length proxyBuilders
             \<and> softFailure parseJson (responseAt net proxyBuilders url (a * length proxyBuilders + p))"
    by simp
  show ?case
    using Cons.IH[OF rest] e by (cases e) (simp_all add: Let_def)
qed

lemma proxyLoop_success:
  assumes "\<forall>q\<in>set ps1. q < length proxyBuilders
             \<and> softFailure parseJson (responseAt net proxyBuilders url (a * length proxyBuilders + q))"
    and "p < length proxyBuilders"
    and "succeedsWith parseJson (responseAt net proxyBuilders url (a * length proxyBuilders + p)) d"
  shows "proxyLoop parseJson net proxyBuilders url a (ps1 @ p # ps2) lastErr = Inr d"
  using assms(1)
proof (induction ps1 arbitrary: lastErr)
  case Nil
  from succeedsWith_attemptOnce[OF assms(3)] show ?case
    unfolding responseAt_round[OF assms(2)] by (simp add: Let_def)
next
  case (Cons q ps1)
  then have q: "q < length proxyBuilders"
    and sf: "softFailure parseJson (responseAt net proxyBuilders url (a * length proxyBuilders + q))"
    by simp_all
  from softFailure_attemptOnce[OF sf] obtain e where
    e: "attemptOnce parseJson (net (a * length proxyBuilders + q)
               ((proxyBuilders ! ((a + q) mod length proxyBuilders)) url)) = Inl e"
    unfolding responseAt_round[OF q] by blast
  from Cons.prems have rest: "\<forall>q\<in>set ps1. q < length proxyBuilders
             \<and> softFailure parseJson (responseAt net proxyBuilders url (a * length proxyBuilders + q))"
    by simp
  show ?case
    using Cons.IH[OF rest] e by (cases e) (simp_all add: Let_def)
qed

lemma attemptLoop_fail:
  assumes "\<forall>a\<in>set as. \<forall>p<length proxyBuilders.
             softFailure parseJson (responseAt net proxyBuilders url (a * length proxyBuilders + p))"
  shows "\<exists>le. attemptLoop parseJson net proxyBuilders url as lastErr = Inl le"
  using assms
proof (induction as arbitrary: lastErr)
  case Nil
  then show ?case by simp
next
  case (Cons a as)
  have "\<forall>p\<in>set [0..<length proxyBuilders]. p < length proxyBuilders
             \<and> softFailure parseJson (responseAt net proxyBuilders url (a * length proxyBuilders + p))"
    using Cons.prems by simp
  from proxyLoop_fail[OF this] obtain le where
    le: "proxyLoop parseJson net proxyBuilders url a [0..<length proxyBuilders] lastErr = Inl le"
    by blast
  from Cons.prems have "\<forall>a\<in>set as. \<forall>p<length proxyBuilders.
             softFailure parseJson (responseAt net proxyBuilders url (a * length proxyBuilders + p))"
    by simp
  from Cons.IH[OF this] show ?case by (simp add: le)
qed

lemma attemptLoop_success:
  assumes "\<forall>b\<in>set as1. \<forall>p<length proxyBuilders.
             softFailure parseJson (responseAt net proxyBuilders url (b * length proxyBuilders + p))"
    and "\<forall>q<p. softFailure parseJson (responseAt net proxyBuilders url (a * length proxyBuilders + q))"
    and "p < length proxyBuilders"
    and "succeedsWith parseJson (responseAt net proxyBuilders url (a * length proxyBuilders + p)) d"
  shows "attemptLoop parseJson net proxyBuilders url (as1 @ a # as2) lastErr = Inr d"
  using assms(1)
proof (induction as1 arbitrary: lastErr)
  case Nil
  have split: "[0..<length proxyBuilders] = [0..<p] @ p # [Suc p..<length proxyBuilders]"
    using assms(3) by (metis upt_conv_Cons le0 upt_add_eq_append le_add_diff_inverse less_imp_le)
  have "\<forall>q\<in>set [0..<p]. q < length proxyBuilders
             \<and> softFailure parseJson (responseAt net proxyBuilders url (a * length proxyBuilders + q))"
    using assms(2,3) by simp
  from proxyLoop_success[OF this assms(3,4)]
  have "proxyLoop parseJson net proxyBuilders url a [0..<length proxyBuilders] lastErr = Inr d"
    unfolding split .
  then show ?case by simp
next
  case (Cons b as1)
  have "\<forall>p\<in>set [0..<length proxyBuilders]. p < length proxyBuilders
             \<and> softFailure parseJson (responseAt net proxyBuilders url (b * length proxyBuilders + p))"
    using Cons.prems by simp
  from proxyLoop_fail[OF this] obtain le where
    le: "proxyLoop parseJson net proxyBuilders url b [0..<length proxyBuilders] lastErr = Inl le"
    by blast
  from Cons.prems have "\<forall>b\<in>set as1. \<forall>p<length proxyBuilders.
             softFailure parseJson (responseAt net proxyBuilders url (b * length proxyBuilders + p))"
    by simp
  from Cons.IH[OF this] show ?case by (simp add: le)
qed


text \<open>
  Claim C8. If, within the budget of \<open>maxAttempts\<close> rounds over all relays, the first
  \<open>k\<close> requests soft-fail and request \<open>k + 1\<close> succeeds, \<^verbatim>\<open>fetchWithProxies\<close> returns
  the parsed body of that request. If every request of every round soft-fails, it
  fails with one error whose message starts with the label, followed by
  \<open>failed:\<close> and a reason.
\<close>

theorem relay_fetch:
  "(k < maxAttempts * length proxyBuilders
      \<and> (\<forall>i<k. softFailure parseJson (responseAt net proxyBuilders url i))
      \<and> succeedsWith parseJson (responseAt net proxyBuilders url k) d
     \<longrightarrow> fetchWithProxies parseJson net proxyBuilders url label maxAttempts = Inr d)
   \<and> ((\<forall>i<maxAttempts * length proxyBuilders.
          softFailure parseJson (responseAt net proxyBuilders url i))
     \<longrightarrow> (\<exists>msg. fetchWithProxies parseJson net proxyBuilders url label maxAttempts
                  = Inl (label @ '' failed: '' @ msg)))"
proof (intro conjI impI)
  let ?n = "length proxyBuilders"
  assume h: "k < maxAttempts * ?n
      \<and> (\<forall>i<k. softFailure parseJson (responseAt net proxyBuilders url i))
      \<and> succeedsWith parseJson (responseAt net proxyBuilders url k) d"
  then have npos: "0 < ?n" by (cases "?n = 0") simp_all
  define a where "a = k div ?n"
  define p where "p = k mod ?n"
  have k: "k = a * ?n + p" by (simp add: a_def p_def)
  have p: "p < ?n" using npos by (simp add: p_def)
  have a: "a < maxAttempts" using h npos unfolding a_def
    by (simp add: less_mult_imp_div_less)
  have before: "\<forall>b\<in>set [0..<a]. \<forall>q<?n.
             softFailure parseJson (responseAt net proxyBuilders url (b * ?n + q))"
  proof (intro ballI allI impI)
    fix b q assume "b \<in> set [0..<a]" "q < ?n"
    then have "b * ?n + q < Suc b * ?n" "Suc b \<le> a" by simp_all
    then have "b * ?n + q < a * ?n"
      by (meson less_le_trans mult_le_mono1)
    then have "b * ?n + q < k" using k by simp
    with h show "softFailure parseJson (responseAt net proxyBuilders url (b * ?n + q))" by blast
  qed
  have inround: "\<forall>q<p. softFailure parseJson (responseAt net proxyBuilders url (a * ?n + q))"
    using h k by simp
  have ok: "succeedsWith parseJson (responseAt net proxyBuilders url (a * ?n + p)) d"
    using h k by simp
  have split: "[0..<maxAttempts] = [0..<a] @ a # [Suc a..<maxAttempts]"
    using a by (metis upt_conv_Cons le0 upt_add_eq_append le_add_diff_inverse less_imp_le)
  from attemptLoop_success[OF before inround p ok]
  have "attemptLoop parseJson net proxyBuilders url [0..<maxAttempts] None = Inr d"
    unfolding split .
  then show "fetchWithProxies parseJson net proxyBuilders url label maxAttempts = Inr d"
    by (simp add: fetchWithProxies_def)
next
  let ?n = "length proxyBuilders"
  assume h: "\<forall>i<maxAttempts * ?n. softFailure parseJson (responseAt net proxyBuilders url i)"
  have "\<forall>a\<in>set [0..<maxAttempts]. \<forall>p<?n.
             softFailure parseJson (responseAt net proxyBuilders url (a * ?n + p))"
  proof (intro ballI allI impI)
    fix a p assume "a \<in> set [0..<maxAttempts]" "p < ?n"
    then have "a * ?n + p < Suc a * ?n" "Suc a \<le> maxAttempts" by simp_all
    then have "a * ?n + p < maxAttempts * ?n"
      by (meson less_le_trans mult_le_mono1)
    with h show "softFailure parseJson (responseAt net proxyBuilders url (a * ?n + p))" by blast
  qed
  from attemptLoop_fail[OF this] obtain le where
    "attemptLoop parseJson net proxyBuilders url [0..<maxAttempts] None = Inl le" by blast
  then show "\<exists>msg. fetchWithProxies parseJson net proxyBuilders url label maxAttempts
                  = Inl (label @ '' failed: '' @ msg)"
    by (simp add: fetchWithProxies_def)
qed

theorem relay_fetch_witness:
  "(3::nat) < 3 * length exampleBuilders
   \<and> fetchWithProxies exampleParse exampleNet exampleBuilders ''u'' ''Fetching X'' 3 = Inr 7
   \<and> (\<exists>msg. fetchWithProxies exampleParse (\<lambda>i u. NotOk) exampleBuilders ''u'' ''Fetching X'' 3
               = Inl (''Fetching X'' @ '' failed: '' @ msg))"
proof -
  have b: "(3::nat) < 3 * length exampleBuilders" by (simp add: exampleBuilders_def)
  have f: "\<forall>i<3. softFailure exampleParse (responseAt exampleNet exampleBuilders ''u'' i)"
    by (simp add: softFailure_def responseAt_def exampleNet_def exampleParse_def Let_def)
  have s: "succeedsWith exampleParse (responseAt exampleNet exampleBuilders ''u'' 3) 7"
    by (simp add: succeedsWith_def responseAt_def exampleNet_def exampleParse_def Let_def)
  have g: "\<forall>i<3 * length exampleBuilders.
      softFailure exampleParse (responseAt (\<lambda>i u. NotOk) exampleBuilders ''u'' i)"
    by (simp add: softFailure_def responseAt_def Let_def)
  from relay_fetch[of 3 3 exampleBuilders exampleParse exampleNet "''u''" 7 "''Fetching X''"] b f s
  have r1: "fetchWithProxies exampleParse exampleNet exampleBuilders ''u'' ''Fetching X'' 3 = Inr 7"
    by blast
  from relay_fetch[of 3 3 exampleBuilders exampleParse "\<lambda>i u. NotOk" "''u''" 7 "''Fetching X''"] g
  have r2: "\<exists>msg. fetchWithProxies exampleParse (\<lambda>i u. NotOk) exampleBuilders ''u'' ''Fetching X'' 3
               = Inl (''Fetching X'' @ '' failed: '' @ msg)"
    by blast
  from b r1 r2 show ?thesis by blast
qed

section \<open>Spot price: a zero in the metadata\<close>

lemma validCloses_eq: "validCloses cs = [v. Some v \<leftarrow> cs]"
  by (induction cs) (auto simp: validCloses_def List.map_filter_simps split: option.splits)

lemma closesFallback_eq:
  "closesFallback ticker result =
     (case (case adjclose result of Some xs \<Rightarrow> Some xs | None \<Rightarrow> quoteClose result) of
        None \<Rightarrow> Inl (''Could not extract price for '' @ ticker)
      | Some cs \<Rightarrow>
          (if [v. Some v \<leftarrow> cs] = [] then Inl (''Could not extract price for '' @ ticker)
           else Inr \<lparr> price = last [v. Some v \<leftarrow> cs], name = ticker \<rparr>))"
  by (auto simp: closesFallback_def Let_def validCloses_eq last_conv_nth split: option.splits)

text \<open>
  Claim C9. When the metadata of the chart result has no regular market price, or has
  the price 0, \<^verbatim>\<open>fetchSpotPrice\<close> behaves as if the metadata were absent: it returns the
  last non-null value of the close series (the adjusted closes when that series is
  present, otherwise the quote closes) under the ticker as name, and fails when there
  is no series or no non-null value in it. A returned price of exactly 0 therefore
  always comes from the close series, never from the metadata. The last part relates
  the whole operation to the result object of a successful fetch.
\<close>

theorem spot_price_meta_zero:
  "((meta result = None
      \<or> (\<exists>m. meta result = Some m
              \<and> (regularMarketPrice m = None \<or> regularMarketPrice m = Some 0)))
     \<longrightarrow> spotFromResult ticker result =
           (case (case adjclose result of Some xs \<Rightarrow> Some xs | None \<Rightarrow> quoteClose result) of
              None \<Rightarrow> Inl (''Could not extract price for '' @ ticker)
            | Some cs \<Rightarrow>
                (if [v. Some v \<leftarrow> cs] = [] then Inl (''Could not extract price for '' @ ticker)
                 else Inr \<lparr> price = last [v. Some v \<leftarrow> cs], name = ticker \<rparr>)))
   \<and> (\<forall>q. spotFromResult ticker result = Inr q \<and> price q = 0
          \<longrightarrow> (\<exists>cs. (case adjclose result of Some xs \<Rightarrow> Some xs | None \<Rightarrow> quoteClose result) = Some cs
                  \<and> [v. Some v \<leftarrow> cs] \<noteq> [] \<and> last [v. Some v \<leftarrow> cs] = 0 \<and> name q = ticker))
   \<and> (\<forall>data. fetchWithProxies parseJson net proxyBuilders url
                (''Fetching '' @ ticker @ '' spot price'') 3 = Inr data
             \<and> chartResult data = Some result
          \<longrightarrow> fetchSpotPrice parseJson net proxyBuilders chartResult url ticker
                = spotFromResult ticker result)"
proof (intro conjI impI allI)
  assume "meta result = None
      \<or> (\<exists>m. meta result = Some m
              \<and> (regularMarketPrice m = None \<or> regularMarketPrice m = Some 0))"
  then have "spotFromResult ticker result = closesFallback ticker result"
    by (auto simp: spotFromResult_def)
  then show "spotFromResult ticker result =
           (case (case adjclose result of Some xs \<Rightarrow> Some xs | None \<Rightarrow> quoteClose result) of
              None \<Rightarrow> Inl (''Could not extract price for '' @ ticker)
            | Some cs \<Rightarrow>
                (if [v. Some v \<leftarrow> cs] = [] then Inl (''Could not extract price for '' @ ticker)
                 else Inr \<lparr> price = last [v. Some v \<leftarrow> cs], name = ticker \<rparr>))"
    by (simp only: closesFallback_eq)
next
  fix q assume h: "spotFromResult ticker result = Inr q \<and> price q = 0"
  then have "closesFallback ticker result = Inr q"
    by (auto simp: spotFromResult_def split: option.splits if_splits)
  with h show "\<exists>cs. (case adjclose result of Some xs \<Rightarrow> Some xs | None \<Rightarrow> quoteClose result) = Some cs
                  \<and> [v. Some v \<leftarrow> cs] \<noteq> [] \<and> last [v. Some v \<leftarrow> cs] = 0 \<and> name q = ticker"
    unfolding closesFallback_eq by (auto split: option.splits if_splits)
next
  fix data assume "fetchWithProxies parseJson net proxyBuilders url
                (''Fetching '' @ ticker @ '' spot price'') 3 = Inr data
             \<and> chartResult data = Some result"
  then show "fetchSpotPrice parseJson net proxyBuilders chartResult url ticker
                = spotFromResult ticker result"
    by (simp add: fetchSpotPrice_def)
qed


theorem spot_price_meta_zero_witness:
  "map_option regularMarketPrice (meta (exampleResult (Some 0) [Some 150, None, Some 152, None]))
     = Some (Some 0)
   \<and> spotFromResult ''AAPL'' (exampleResult (Some 0) [Some 150, None, Some 152, None])
       = Inr \<lparr> price = 152, name = ''AAPL'' \<rparr>
   \<and> spotFromResult ''AAPL'' (exampleResult (Some 0) [Some 150, Some 0])
       = Inr \<lparr> price = 0, name = ''AAPL'' \<rparr>
   \<and> last [v. Some v \<leftarrow> [Some 150, Some (0::real)]] = 0
   \<and> fetchWithProxies exampleParse exampleNet exampleBuilders ''u''
        (''Fetching '' @ ''AAPL'' @ '' spot price'') 3 = Inr 7
   \<and> fetchSpotPrice exampleParse exampleNet exampleBuilders
        (\<lambda>d. Some (exampleResult (Some 0) [Some 150, None, Some 152, None])) ''u'' ''AAPL''
       = Inr \<lparr> price = 152, name = ''AAPL'' \<rparr>"
proof -
  let ?r = "exampleResult (Some 0) [Some 150, None, Some 152, None]"
  let ?z = "exampleResult (Some 0) [Some 150, Some 0]"
  let ?c = "\<lambda>d::nat. Some ?r"
  have m: "map_option regularMarketPrice (meta ?r) = Some (Some 0)"
    by (simp add: exampleResult_def)
  then have h: "meta ?r = None
      \<or> (\<exists>m. meta ?r = Some m \<and> (regularMarketPrice m = None \<or> regularMarketPrice m = Some 0))"
    by (simp add: exampleResult_def)
  from spot_price_meta_zero[of ?r "''AAPL''" exampleParse exampleNet exampleBuilders "''u''" ?c] h
  have "spotFromResult ''AAPL'' ?r =
           (case (case adjclose ?r of Some xs \<Rightarrow> Some xs | None \<Rightarrow> quoteClose ?r) of
              None \<Rightarrow> Inl (''Could not extract price for '' @ ''AAPL'')
            | Some cs \<Rightarrow>
                (if [v. Some v \<leftarrow> cs] = [] then Inl (''Could not extract price for '' @ ''AAPL'')
                 else Inr \<lparr> price = last [v. Some v \<leftarrow> cs], name = ''AAPL'' \<rparr>))"
    by blast
  then have v: "spotFromResult ''AAPL'' ?r = Inr \<lparr> price = 152, name = ''AAPL'' \<rparr>"
    by (simp add: exampleResult_def)
  have v0: "spotFromResult ''AAPL'' ?z = Inr \<lparr> price = 0, name = ''AAPL'' \<rparr>"
    by (simp add: exampleResult_def spotFromResult_def closesFallback_def validCloses_def
        List.map_filter_simps Let_def)
  note t0 = spot_price_meta_zero[of ?z "''AAPL''" exampleParse exampleNet exampleBuilders "''u''" ?c]
  have p0: "price \<lparr> price = 0, name = ''AAPL'' \<rparr> = 0" by simp
  from t0[THEN conjunct2, THEN conjunct1, rule_format, OF conjI, OF v0 p0]
  have "\<exists>cs. (case adjclose ?z of Some xs \<Rightarrow> Some xs | None \<Rightarrow> quoteClose ?z) = Some cs
                  \<and> [v. Some v \<leftarrow> cs] \<noteq> [] \<and> last [v. Some v \<leftarrow> cs] = 0"
    by blast
  then have l0: "last [v. Some v \<leftarrow> [Some 150, Some (0::real)]] = 0"
    by (simp add: exampleResult_def)
  have f: "fetchWithProxies exampleParse exampleNet exampleBuilders ''u''
        (''Fetching '' @ ''AAPL'' @ '' spot price'') 3 = Inr 7"
    by (simp add: fetchWithProxies_def attemptOnce_def exampleNet_def exampleParse_def
        exampleBuilders_def upt_conv_Cons Let_def)
  from spot_price_meta_zero[of ?r "''AAPL''" exampleParse exampleNet exampleBuilders "''u''" ?c] f
  have "fetchSpotPrice exampleParse exampleNet exampleBuilders ?c ''u'' ''AAPL''
          = spotFromResult ''AAPL'' ?r"
    by blast
  with v have fs: "fetchSpotPrice exampleParse exampleNet exampleBuilders ?c ''u'' ''AAPL''
          = Inr \<lparr> price = 152, name = ''AAPL'' \<rparr>"
    by simp
  show ?thesis by (intro conjI m v v0 l0 f fs)
qed

end
